theory Spec2Isabelle
  imports Main
begin

section \<open>Python exceptions and string helpers\<close>

text \<open>
  Exceptions are values. \<open>ModuleNotFoundError\<close> is a subclass of \<open>ImportError\<close> in
  Python, so an \<open>except ImportError\<close> clause catches both (\<open>is_ImportError\<close>).
  \<open>SystemExit n\<close> is what \<open>sys.exit(n)\<close> raises; it is not an \<open>Exception\<close>.
\<close>

datatype error =
    ImportError string
  | ModuleNotFoundError string
  | FileNotFoundError string
  | FileExistsError string
  | IsADirectoryError string
  | NotADirectoryError string
  | AssertionError
  | AttributeError
  | IndexError
  | ValueError
  | OSError string
  | RenderError string
  | SystemExit nat

fun is_ImportError :: "error \<Rightarrow> bool" where
  "is_ImportError (ImportError _) = True"
| "is_ImportError (ModuleNotFoundError _) = True"
| "is_ImportError _ = False"

fun is_Exception :: "error \<Rightarrow> bool" where
  "is_Exception (SystemExit _) = False"
| "is_Exception _ = True"

definition startswith :: "string \<Rightarrow> string \<Rightarrow> bool" where
  "startswith s p = (take (length p) s = p)"

definition endswith :: "string \<Rightarrow> string \<Rightarrow> bool" where
  "endswith s p = (length p \<le> length s \<and> drop (length s - length p) s = p)"

text \<open>\<open>j in i\<close> on strings: \<open>j\<close> occurs in \<open>i\<close> as a contiguous substring.\<close>

fun contains :: "string \<Rightarrow> string \<Rightarrow> bool" where
  "contains [] j = (j = [])"
| "contains (c # cs) j = (startswith (c # cs) j \<or> contains cs j)"

text \<open>\<open>sep.join(xs)\<close>.\<close>

fun str_join :: "string \<Rightarrow> string list \<Rightarrow> string" where
  "str_join sep [] = []"
| "str_join sep [x] = x"
| "str_join sep (x # y # ys) = x @ sep @ str_join sep (y # ys)"

text \<open>\<open>s.split(c)\<close> for a one-character separator: always at least one part.\<close>

fun split_on :: "char \<Rightarrow> string \<Rightarrow> string list" where
  "split_on c [] = [[]]"
| "split_on c (x # xs) =
     (if x = c then [] # split_on c xs
      else (case split_on c xs of [] \<Rightarrow> [[x]] | p # ps \<Rightarrow> (x # p) # ps))"

definition lstrip :: "char \<Rightarrow> string \<Rightarrow> string" where
  "lstrip c s = dropWhile (\<lambda>x. x = c) s"

definition rstrip :: "char \<Rightarrow> string \<Rightarrow> string" where
  "rstrip c s = rev (dropWhile (\<lambda>x. x = c) (rev s))"

subsection \<open>\<open>os.path\<close> (POSIX flavour)\<close>

text \<open>\<open>os.path.join(a, *p)\<close>: an absolute component discards everything before it.\<close>

fun join :: "string \<Rightarrow> string list \<Rightarrow> string" where
  "join path [] = path"
| "join path (b # p) =
     join (if startswith b ''/'' then b
           else if path = [] \<or> endswith path ''/'' then path @ b
           else path @ ''/'' @ b) p"

text \<open>
  \<open>os.path.split(p)\<close>: the cut is after the last slash; trailing slashes of the head
  are stripped unless the head consists of slashes only.
\<close>

definition path_split :: "string \<Rightarrow> string \<times> string" where
  "path_split p =
     (let tail = rev (takeWhile (\<lambda>x. x \<noteq> CHR ''/'') (rev p));
          head = take (length p - length tail) p
      in (if head \<noteq> [] \<and> (\<exists>x \<in> set head. x \<noteq> CHR ''/'') then rstrip (CHR ''/'') head else head,
          tail))"

definition dirname :: "string \<Rightarrow> string" where
  "dirname p = fst (path_split p)"

section \<open>Discovery: \<open>getPackages\<close>\<close>

text \<open>
  The object \<open>pdoc.import_module\<close> returns, as far as this code looks at it: whether it
  has a \<open>__file__\<close> attribute and, if so, its value.
\<close>

record pyobj =
  file_attr :: "string option"

text \<open>
  The options of the command line that the code below consults through the global
  \<open>args\<close>: \<open>--ignore\<close> (empty when absent), \<open>--output-dir\<close> (empty when unset),
  \<open>--force\<close> and \<open>--html\<close>.
\<close>

record args =
  ignore :: "string list"
  output_dir :: "string"
  force :: bool
  html :: bool

text \<open>
  What discovery reads from the outside world: the file system (\<open>isdir\<close>, the directory
  names of \<open>next(walk(d))[1]\<close>, \<open>listdir\<close>), path normalisation
  (\<open>abspath(expanduser(p))\<close>), and the reflection layer (\<open>pdoc.import_module\<close> and the
  constructor \<open>pdoc.Module(path, **kwargs)\<close>, both of which may raise), together with
  the options in force.
\<close>

record 'm discovery =
  abspath :: "string \<Rightarrow> string"
  isdir :: "string \<Rightarrow> bool"
  walk_dirs :: "string \<Rightarrow> string list"
  listdir :: "string \<Rightarrow> string list"
  import_module :: "string \<Rightarrow> error + pyobj"
  new_Module :: "string \<Rightarrow> error + 'm"
  args :: args

definition check_if_module :: "'m discovery \<Rightarrow> string \<Rightarrow> error + bool" where
  "check_if_module E module =
     (case import_module E module of
        Inl e \<Rightarrow> Inl e
      | Inr obj \<Rightarrow> Inr (file_attr obj \<noteq> None))"

definition SKIP_DIRS :: "args \<Rightarrow> string list" where
  "SKIP_DIRS A =
     [''venv'', ''docs'', ''egg-info'', ''build'', ''dist'', ''virtualenv'']
       @ ignore A @ (if output_dir A \<noteq> [] then [output_dir A] else [])"

definition SKIP_PREPEND :: "char list" where
  "SKIP_PREPEND = [CHR ''.'', CHR ''_'']"

text \<open>
  The list comprehension that selects the subdirectories to look at. \<open>i[0]\<close> raises
  \<open>IndexError\<close> on an empty name.
\<close>

fun select_subdirs :: "'m discovery \<Rightarrow> string \<Rightarrow> string list \<Rightarrow> error + string list" where
  "select_subdirs E directory [] = Inr []"
| "select_subdirs E directory (i # rest) =
     (if \<not> list_ex (\<lambda>j. contains i j) (SKIP_DIRS (args E)) then
        (case i of
           [] \<Rightarrow> Inl IndexError
         | c # _ \<Rightarrow>
             (case select_subdirs E directory rest of
                Inl e \<Rightarrow> Inl e
              | Inr ds \<Rightarrow> Inr (if c \<notin> set SKIP_PREPEND then join directory [i] # ds else ds)))
      else select_subdirs E directory rest)"

text \<open>
  The loop \<open>for dir_ in subDirs: ... else: subDirs.append(dir_)\<close>. Python's list
  iterator holds an index and compares it with the current length at every step, so
  elements appended during the loop are visited too. The loop need not end: \<open>None\<close>
  is "does not return".
\<close>

partial_function (option) check_subdirs ::
  "'m discovery \<Rightarrow> nat \<Rightarrow> string list \<Rightarrow> 'm list \<Rightarrow> (error + 'm list \<times> string list) option"
where
  "check_subdirs E i subDirs packageMods =
     (if i < length subDirs then
        (case check_if_module E (subDirs ! i) of
           Inl e \<Rightarrow> Some (Inl e)
         | Inr is_mod \<Rightarrow>
             if is_mod then
               (case new_Module E (subDirs ! i) of
                  Inl e \<Rightarrow> Some (Inl e)
                | Inr m \<Rightarrow> check_subdirs E (Suc i) subDirs (packageMods @ [m]))
             else check_subdirs E (Suc i) (subDirs @ [subDirs ! i]) packageMods)
      else Some (Inr (packageMods, subDirs)))"

definition check_if_package ::
  "'m discovery \<Rightarrow> string \<Rightarrow> (error + 'm list \<times> bool \<times> string list) option"
where
  "check_if_package E directory0 =
     (let directory = abspath E directory0 in
      case check_if_module E directory of
        Inl e \<Rightarrow> Some (Inl e)
      | Inr True \<Rightarrow>
          (case new_Module E directory of
             Inl e \<Rightarrow> Some (Inl e)
           | Inr m \<Rightarrow> Some (Inr ([m], ''setup.py'' \<in> set (listdir E directory), [])))
      | Inr False \<Rightarrow>
          (case select_subdirs E directory (walk_dirs E directory) of
             Inl e \<Rightarrow> Some (Inl e)
           | Inr subDirs \<Rightarrow>
               (case check_subdirs E 0 subDirs [] of
                  None \<Rightarrow> None
                | Some (Inl e) \<Rightarrow> Some (Inl e)
                | Some (Inr (packageMods, subDirs')) \<Rightarrow>
                    Some (Inr (packageMods, ''setup.py'' \<in> set (listdir E directory), subDirs')))))"

text \<open>The four lists the \<open>while\<close> loop of \<open>getPackages\<close> works on.\<close>

record 'm scan =
  modules :: "'m list"
  packs :: "(string \<times> 'm list) list"
  subdirs :: "string list"
  errs :: "string list"

text \<open>The body of \<open>for package in packages\<close>.\<close>

fun scan_packages :: "'m discovery \<Rightarrow> string list \<Rightarrow> 'm scan \<Rightarrow> (error + 'm scan) option" where
  "scan_packages E [] s = Some (Inr s)"
| "scan_packages E (package # rest) s =
     (if isdir E (abspath E package) then
        (case check_if_package E package of
           None \<Rightarrow> None
         | Some (Inl e) \<Rightarrow> Some (Inl e)
         | Some (Inr (mods, pack, subd)) \<Rightarrow>
             scan_packages E rest
               (if pack then s\<lparr>packs := packs s @ [(snd (path_split package), mods)]\<rparr>
                else s\<lparr>modules := modules s @ mods, subdirs := subdirs s @ subd\<rparr>))
      else scan_packages E rest (s\<lparr>errs := errs s @ [package]\<rparr>))"

text \<open>
  One round of the \<open>while\<close> loop up to and including the per-level check; \<open>subdirs\<close>
  and \<open>errs\<close> are empty at the start of every round.
\<close>

definition scan_level ::
  "'m discovery \<Rightarrow> string list \<Rightarrow> 'm list \<Rightarrow> (string \<times> 'm list) list \<Rightarrow> (error + 'm scan) option"
where
  "scan_level E packages mods pks =
     (case scan_packages E packages \<lparr>modules = mods, packs = pks, subdirs = [], errs = []\<rparr> of
        None \<Rightarrow> None
      | Some (Inl e) \<Rightarrow> Some (Inl e)
      | Some (Inr s) \<Rightarrow>
          if packs s = [] \<and> modules s = [] \<and> subdirs s = [] then
            Some (Inl (FileNotFoundError
              (''The directories '' @ str_join '', '' (errs s) @ '' do not exist.'')))
          else Some (Inr s))"

text \<open>
  \<open>while depth: ...; depth -= 1\<close> followed by the final check. \<open>depth\<close> is a Python
  integer; a negative one never reaches zero.
\<close>

partial_function (option) scan_loop ::
  "'m discovery \<Rightarrow> string list \<Rightarrow> int \<Rightarrow> string list \<Rightarrow> 'm list \<Rightarrow> (string \<times> 'm list) list
     \<Rightarrow> (error + (string \<times> 'm list) list \<times> 'm list) option"
where
  "scan_loop E ori_packages depth packages mods pks =
     (if depth \<noteq> 0 then
        (case scan_level E packages mods pks of
           None \<Rightarrow> None
         | Some (Inl e) \<Rightarrow> Some (Inl e)
         | Some (Inr s) \<Rightarrow> scan_loop E ori_packages (depth - 1) (subdirs s) (modules s) (packs s))
      else if mods = [] \<and> pks = [] then
        Some (Inl (ModuleNotFoundError
          (''No modules or packages were found in '' @ str_join '' ,'' ori_packages)))
      else Some (Inr (pks, mods)))"

definition getPackages ::
  "'m discovery \<Rightarrow> string list \<Rightarrow> int \<Rightarrow> (error + (string \<times> 'm list) list \<times> 'm list) option"
where
  "getPackages E packages depth = scan_loop E packages depth packages [] []"

subsection \<open>Concrete directory trees\<close>

definition plain_tree :: "unit discovery" where
  "plain_tree =
     \<lparr>abspath = (\<lambda>p. p),
      isdir = (\<lambda>p. p = ''/r'' \<or> p = ''/r/a''),
      walk_dirs = (\<lambda>p. if p = ''/r'' then [''a''] else []),
      listdir = (\<lambda>p. if p = ''/r'' then [''a''] else []),
      import_module = (\<lambda>p. Inr \<lparr>file_attr = None\<rparr>),
      new_Module = (\<lambda>p. Inr ()),
      args = \<lparr>ignore = [], output_dir = [], force = False, html = False\<rparr>\<rparr>"

definition empty_dir :: "unit discovery" where
  "empty_dir =
     \<lparr>abspath = (\<lambda>p. p),
      isdir = (\<lambda>p. p = ''/e''),
      walk_dirs = (\<lambda>p. []),
      listdir = (\<lambda>p. []),
      import_module = (\<lambda>p. Inr \<lparr>file_attr = None\<rparr>),
      new_Module = (\<lambda>p. Inr ()),
      args = \<lparr>ignore = [], output_dir = [], force = False, html = False\<rparr>\<rparr>"

section \<open>Documentation objects\<close>

text \<open>
  \<open>dobj.module\<close> as the index builder sees it: an object used as a cache key, with a
  \<open>url()\<close>.
\<close>

record modref =
  mod_name :: string
  mod_url :: string

text \<open>
  A documentation object (\<open>pdoc.Doc\<close>): its \<open>refname\<close>, its defining \<open>module\<close>, its
  \<open>docstring\<close>, whether it is a \<open>pdoc.Function\<close>, and the values of its member
  mapping \<open>doc\<close> in insertion order (empty for an object without that attribute).
\<close>

datatype Doc =
  Doc (refname: string) (module: modref) (docstring: string) (is_Function: bool) (doc: "Doc list")

text \<open>
  A \<open>pdoc.Module\<close>: \<open>name\<close>, \<open>url()\<close>, \<open>is_package\<close>, the outcome of rendering it with
  \<open>html(**kwargs)\<close> and \<open>text(**kwargs)\<close>, its \<open>submodules()\<close>, and the module seen as
  a documentation object.
\<close>

datatype Module =
  Module (name: string) (url: string) (is_package: bool)
    (m_html: "error + string") (m_text: "error + string")
    (submodules: "Module list") (as_Doc: Doc)

section \<open>JSON as \<open>json.dump(v, f, indent=0, separators=(',', ':'))\<close> writes it\<close>

datatype json = JStr string | JInt int | JArr "json list" | JObj "(string \<times> json) list"

definition digit_char :: "nat \<Rightarrow> char" where
  "digit_char d = ''0123456789abcdef'' ! d"

text \<open>\<open>str(n)\<close> for a natural number and for an integer.\<close>

fun str_nat :: "nat \<Rightarrow> string" where
  "str_nat n = (if n < 10 then [digit_char n] else str_nat (n div 10) @ [digit_char (n mod 10)])"

declare str_nat.simps [simp del]

definition str_int :: "int \<Rightarrow> string" where
  "str_int i = (if i < 0 then CHR ''-'' # str_nat (nat (- i)) else str_nat (nat i))"

text \<open>
  String literals with \<open>ensure_ascii\<close>: the quote, the backslash and the control
  characters with a short form are escaped by name, every other character outside
  \<open>' '..'~'\<close> as \<open>\u00XX\<close>. A string of the model is a sequence of code points below 256.
\<close>

definition escape_char :: "char \<Rightarrow> string" where
  "escape_char c =
     (let n = (of_char c :: nat) in
      if c = CHR 0x22 then [CHR 0x5C, CHR 0x22]
      else if c = CHR 0x5C then [CHR 0x5C, CHR 0x5C]
      else if c = CHR 0x0A then [CHR 0x5C, CHR ''n'']
      else if c = CHR 0x0D then [CHR 0x5C, CHR ''r'']
      else if c = CHR 0x09 then [CHR 0x5C, CHR ''t'']
      else if c = CHR 0x08 then [CHR 0x5C, CHR ''b'']
      else if c = CHR 0x0C then [CHR 0x5C, CHR ''f'']
      else if 0x20 \<le> n \<and> n \<le> 0x7E then [c]
      else [CHR 0x5C, CHR ''u'', CHR ''0'', CHR ''0'',
            digit_char (n div 16), digit_char (n mod 16)])"

definition encode_str :: "string \<Rightarrow> string" where
  "encode_str s = [CHR 0x22] @ concat (map escape_char s) @ [CHR 0x22]"

text \<open>
  With \<open>indent=0\<close> the encoder puts a newline after every opening bracket, after every
  item separator and before every closing bracket, followed by an indentation of zero
  characters; an empty list or object is \<open>[]\<close> or \<open>{}\<close>.
\<close>

fun json_dump :: "json \<Rightarrow> string" where
  "json_dump (JStr s) = encode_str s"
| "json_dump (JInt i) = str_int i"
| "json_dump (JArr xs) =
     (if xs = [] then ''[]''
      else ''['' @ [CHR 0x0A] @ str_join ('','' @ [CHR 0x0A]) (map json_dump xs)
             @ [CHR 0x0A] @ '']'')"
| "json_dump (JObj kvs) =
     (if kvs = [] then ''{}''
      else ''{'' @ [CHR 0x0A]
             @ str_join ('','' @ [CHR 0x0A])
                 (map (\<lambda>kv. encode_str (fst kv) @ '':'' @ json_dump (snd kv)) kvs)
             @ [CHR 0x0A] @ ''}'')"

text \<open>The most compact form, \<open>json.dumps(v, separators=(',', ':'))\<close>, for comparison.\<close>

fun json_compact :: "json \<Rightarrow> string" where
  "json_compact (JStr s) = encode_str s"
| "json_compact (JInt i) = str_int i"
| "json_compact (JArr xs) = ''['' @ str_join '','' (map json_compact xs) @ '']''"
| "json_compact (JObj kvs) =
     ''{'' @ str_join '','' (map (\<lambda>kv. encode_str (fst kv) @ '':'' @ json_compact (snd kv)) kvs)
       @ ''}''"

section \<open>The search index: \<open>_generate_lunr_search\<close>\<close>

text \<open>
  The state of one build: the list \<open>index\<close>, the dictionary \<open>url_cache\<close> in insertion
  order, and the table of \<open>lru_cache\<close> around \<open>to_url_id\<close>, most recently used first.
\<close>

record build =
  index :: "json list"
  url_cache :: "(string \<times> nat) list"
  lru :: "(modref \<times> nat) list"

text \<open>\<open>url.split('/', maxsplit=1)\<close>: one part when there is no slash, else two.\<close>

fun split_once :: "string \<Rightarrow> string list" where
  "split_once [] = [[]]"
| "split_once (x # xs) =
     (if x = CHR ''/'' then [[], xs]
      else (case split_once xs of
              [p] \<Rightarrow> [x # p]
            | p # q # _ \<Rightarrow> [x # p, q]
            | [] \<Rightarrow> [[x]]))"

text \<open>
  The first lines of \<open>to_url_id\<close>: the module's URL, taken relative to the package's
  folder when the top module is a package. Unpacking
  \<open>_, url = url.split('/', maxsplit=1)\<close> raises \<open>ValueError\<close> when the URL has no slash.
\<close>

definition rel_url :: "bool \<Rightarrow> modref \<Rightarrow> error + string" where
  "rel_url top_is_package m =
     (if top_is_package then
        (case split_once (mod_url m) of [_, u] \<Rightarrow> Inr u | _ \<Rightarrow> Inl ValueError)
      else Inr (mod_url m))"

text \<open>The body of \<open>to_url_id\<close>: a URL not yet in \<open>url_cache\<close> gets the cache's size as id.\<close>

definition to_url_id_body ::
  "bool \<Rightarrow> modref \<Rightarrow> (string \<times> nat) list \<Rightarrow> error + nat \<times> (string \<times> nat) list"
where
  "to_url_id_body top_is_package m cache =
     (case rel_url top_is_package m of
        Inl e \<Rightarrow> Inl e
      | Inr u \<Rightarrow>
          (case map_of cache u of
             Some k \<Rightarrow> Inr (k, cache)
           | None \<Rightarrow> Inr (length cache, cache @ [(u, length cache)])))"

text \<open>
  \<open>@lru_cache()\<close> with its default size of 128: a hit returns the stored id and makes
  the entry the most recent one; a miss runs the body, stores the result in front and
  drops the least recently used entry beyond the size. A call that raises stores nothing.
\<close>

definition lru_maxsize :: nat where
  "lru_maxsize = 128"

definition to_url_id :: "bool \<Rightarrow> modref \<Rightarrow> build \<Rightarrow> error + nat \<times> build" where
  "to_url_id top_is_package m s =
     (case map_of (lru s) m of
        Some k \<Rightarrow> Inr (k, s\<lparr>lru := (m, k) # filter (\<lambda>e. fst e \<noteq> m) (lru s)\<rparr>)
      | None \<Rightarrow>
          (case to_url_id_body top_is_package m (url_cache s) of
             Inl e \<Rightarrow> Inl e
           | Inr (k, cache') \<Rightarrow>
               Inr (k, s\<lparr>url_cache := cache', lru := take lru_maxsize ((m, k) # lru s)\<rparr>)))"

text \<open>The dictionary \<open>info\<close> of one documentation object, keys in insertion order.\<close>

definition info :: "(string \<Rightarrow> string) \<Rightarrow> bool \<Rightarrow> Doc \<Rightarrow> nat \<Rightarrow> json" where
  "info trim_docstring index_docstrings dobj k =
     JObj ([(''ref'', JStr (refname dobj)), (''url'', JInt (int k))]
           @ (if index_docstrings then [(''doc'', JStr (trim_docstring (docstring dobj)))] else [])
           @ (if is_Function dobj then [(''func'', JInt 1)] else []))"

text \<open>
  \<open>recursive_add_to_index\<close>: the object itself, then its members in order.
  \<open>trim_docstring\<close> is a regular-expression substitution taken as given.
\<close>

fun recursive_add_to_index ::
  "(string \<Rightarrow> string) \<Rightarrow> bool \<Rightarrow> bool \<Rightarrow> Doc \<Rightarrow> build \<Rightarrow> error + build"
and add_members ::
  "(string \<Rightarrow> string) \<Rightarrow> bool \<Rightarrow> bool \<Rightarrow> Doc list \<Rightarrow> build \<Rightarrow> error + build"
where
  "recursive_add_to_index trim_docstring index_docstrings top_is_package (Doc r m d f members) s =
     (case to_url_id top_is_package m s of
        Inl e \<Rightarrow> Inl e
      | Inr (k, s1) \<Rightarrow>
          add_members trim_docstring index_docstrings top_is_package members
            (s1\<lparr>index := index s1 @ [info trim_docstring index_docstrings (Doc r m d f members) k]\<rparr>))"
| "add_members trim_docstring index_docstrings top_is_package [] s = Inr s"
| "add_members trim_docstring index_docstrings top_is_package (dobj # rest) s =
     (case recursive_add_to_index trim_docstring index_docstrings top_is_package dobj s of
        Inl e \<Rightarrow> Inl e
      | Inr s1 \<Rightarrow> add_members trim_docstring index_docstrings top_is_package rest s1)"

text \<open>\<open>urls = [i[0] for i in sorted(url_cache.items(), key=lambda i: i[1])]\<close>.\<close>

definition urls_of :: "(string \<times> nat) list \<Rightarrow> string list" where
  "urls_of cache = map fst (sort_key snd cache)"

text \<open>The two values the build computes before anything is written.\<close>

definition build_index ::
  "(string \<Rightarrow> string) \<Rightarrow> bool \<Rightarrow> Module \<Rightarrow> error + string list \<times> json list"
where
  "build_index trim_docstring index_docstrings top_module =
     (case recursive_add_to_index trim_docstring index_docstrings (is_package top_module)
             (as_Doc top_module) \<lparr>index = [], url_cache = [], lru = []\<rparr> of
        Inl e \<Rightarrow> Inl e
      | Inr s \<Rightarrow> Inr (urls_of (url_cache s), index s))"

text \<open>What the body of the first \<open>with\<close> block writes to \<open>index.js\<close>.\<close>

definition index_js :: "string list \<Rightarrow> json list \<Rightarrow> string" where
  "index_js urls idx =
     ''URLS='' @ json_dump (JArr (map JStr urls)) @ '';'' @ [CHR 0x0A] @ ''INDEX=''
       @ json_dump (JArr idx)"

subsection \<open>Vocabulary for stating what the build computes\<close>

text \<open>The documentation objects below \<open>dobj\<close> in pre-order.\<close>

fun preorder :: "Doc \<Rightarrow> Doc list" where
  "preorder (Doc r m d f members) = Doc r m d f members # concat (map preorder members)"

text \<open>The distinct elements of a list in the order of their first occurrence.\<close>

fun first_seen :: "'a list \<Rightarrow> 'a list" where
  "first_seen [] = []"
| "first_seen (x # xs) = x # filter (\<lambda>y. y \<noteq> x) (first_seen xs)"

text \<open>
  A key list extended by the URLs of a sequence of interning calls, and the invariant of
  a build state: the ids of \<open>url_cache\<close> are the positions, no URL occurs twice, and
  every entry of the \<open>lru_cache\<close> table agrees with \<open>url_cache\<close>.
\<close>

fun seen_from :: "'a list \<Rightarrow> 'a list \<Rightarrow> 'a list" where
  "seen_from K [] = K"
| "seen_from K (u # us) = seen_from (if u \<in> set K then K else K @ [u]) us"

definition build_inv :: "bool \<Rightarrow> build \<Rightarrow> bool" where
  "build_inv p s =
     (distinct (map fst (url_cache s))
      \<and> map snd (url_cache s) = [0..<length (url_cache s)]
      \<and> (\<forall>e \<in> set (lru s). \<exists>u. rel_url p (fst e) = Inr u \<and> map_of (url_cache s) u = Some (snd e)))"

text \<open>
  What a traversal from state \<open>s\<close> to state \<open>s'\<close> over the documentation objects
  \<open>docs\<close> has done: the invariant holds, the URLs of the objects have been interned in
  order, and one record per object has been appended, each with an id at which the final
  cache holds the object's URL.
\<close>

definition ukey :: "bool \<Rightarrow> Doc \<Rightarrow> string" where
  "ukey p dobj = projr (rel_url p (module dobj))"

definition traversed ::
  "(string \<Rightarrow> string) \<Rightarrow> bool \<Rightarrow> bool \<Rightarrow> build \<Rightarrow> build \<Rightarrow> Doc list \<Rightarrow> bool"
where
  "traversed t i p s s' docs =
     (build_inv p s'
      \<and> map fst (url_cache s') = seen_from (map fst (url_cache s)) (map (ukey p) docs)
      \<and> (\<exists>ks. length ks = length docs
            \<and> index s' = index s @ map (\<lambda>(dobj, k). info t i dobj k) (zip docs ks)
            \<and> (\<forall>j < length docs.
                  ks ! j < length (url_cache s')
                  \<and> rel_url p (module (docs ! j)) = Inr (map fst (url_cache s') ! (ks ! j)))))"

subsection \<open>A concrete package\<close>

text \<open>
  The package \<open>pkg\<close> with a function \<open>pkg.f\<close> and the submodule \<open>pkg.sub\<close>, which
  holds a class \<open>pkg.sub.C\<close> with a method \<open>pkg.sub.C.m\<close>.
\<close>

definition pkg_ref :: modref where
  "pkg_ref = \<lparr>mod_name = ''pkg'', mod_url = ''pkg/index.html''\<rparr>"

definition sub_ref :: modref where
  "sub_ref = \<lparr>mod_name = ''pkg.sub'', mod_url = ''pkg/sub.html''\<rparr>"

definition sub_doc :: Doc where
  "sub_doc =
     Doc ''pkg.sub'' sub_ref ''Sub.'' False
       [Doc ''pkg.sub.C'' sub_ref ''A class.'' False
          [Doc ''pkg.sub.C.m'' sub_ref ''A method.'' True []]]"

definition pkg_doc :: Doc where
  "pkg_doc =
     Doc ''pkg'' pkg_ref ''Pkg.'' False
       [Doc ''pkg.f'' pkg_ref ''A function.'' True [], sub_doc]"

definition demo_pkg :: Module where
  "demo_pkg =
     Module ''pkg'' ''pkg/index.html'' True (Inr ''<pkg>'') (Inr ''pkg'')
       [Module ''pkg.sub'' ''pkg/sub.html'' False (Inr ''<sub>'') (Inr ''sub'') [] sub_doc]
       pkg_doc"

text \<open>The index records of that package, docstrings included and not trimmed.\<close>

definition demo_index :: "json list" where
  "demo_index =
     [info (\<lambda>s. s) True pkg_doc 0,
      info (\<lambda>s. s) True (Doc ''pkg.f'' pkg_ref ''A function.'' True []) 0,
      info (\<lambda>s. s) True sub_doc 1,
      info (\<lambda>s. s) True (Doc ''pkg.sub.C'' sub_ref ''A class.'' False
          [Doc ''pkg.sub.C.m'' sub_ref ''A method.'' True []]) 1,
      info (\<lambda>s. s) True (Doc ''pkg.sub.C.m'' sub_ref ''A method.'' True []) 1]"


section \<open>The file system and the output streams\<close>

text \<open>
  A path names a regular file with its content, a directory, or nothing. Permissions and
  symbolic links are not modelled: a path that exists is readable. \<open>stdout\<close> and
  \<open>stderr\<close> are the characters written so far.
\<close>

datatype node = File string | Dir

record world =
  files :: "string \<Rightarrow> node option"
  stdout :: string
  stderr :: string

text \<open>
  What the writer takes from outside: a fault of the disk (\<open>write_fault f data\<close> is
  \<open>None\<close> when writing \<open>data\<close> to \<open>f\<close> succeeds, else the part that was written
  and the exception), the rendering of \<open>search.mako\<close>, the substitution
  \<open>trim_docstring\<close>, and the \<open>lunr_search\<close> entry of the template configuration
  (\<open>None\<close> when absent, else the value of \<open>index_docstrings\<close>).
\<close>

record host =
  write_fault :: "string \<Rightarrow> string \<Rightarrow> (string \<times> error) option"
  render_search :: "Module \<Rightarrow> error + string"
  trim_docstring :: "string \<Rightarrow> string"
  lunr_search :: "bool option"

text \<open>\<open>print(s)\<close> and \<open>print(s, file=sys.stderr)\<close>.\<close>

definition print :: "string \<Rightarrow> world \<Rightarrow> world" where
  "print s w = w\<lparr>stdout := stdout w @ s @ [CHR 0x0A]\<rparr>"

definition eprint :: "string \<Rightarrow> world \<Rightarrow> world" where
  "eprint s w = w\<lparr>stderr := stderr w @ s @ [CHR 0x0A]\<rparr>"

text \<open>
  \<open>open(filename, 'w')\<close> creates the file or truncates it; it fails on a directory,
  when the containing directory is missing, and when the containing path is a regular
  file.
\<close>

definition open_w :: "(string \<Rightarrow> node option) \<Rightarrow> string \<Rightarrow> error + (string \<Rightarrow> node option)" where
  "open_w fs filename =
     (if fs filename = Some Dir then Inl (IsADirectoryError filename)
      else if dirname filename \<noteq> [] \<and> fs (dirname filename) = None
        then Inl (FileNotFoundError filename)
      else if dirname filename \<noteq> [] \<and> fs (dirname filename) \<noteq> Some Dir
        then Inl (NotADirectoryError filename)
      else Inr (fs(filename \<mapsto> File [])))"

text \<open>\<open>os.unlink\<close> removes a regular file and fails on anything else.\<close>

definition unlink :: "(string \<Rightarrow> node option) \<Rightarrow> string \<Rightarrow> error + (string \<Rightarrow> node option)" where
  "unlink fs filename =
     (case fs filename of
        Some (File _) \<Rightarrow> Inr (fs(filename := None))
      | Some Dir \<Rightarrow> Inl (IsADirectoryError filename)
      | None \<Rightarrow> Inl (FileNotFoundError filename))"

text \<open>\<open>f.write(data)\<close> on the file opened at \<open>filename\<close>.\<close>

definition f_write :: "host \<Rightarrow> string \<Rightarrow> string \<Rightarrow> world \<Rightarrow> error option \<times> world" where
  "f_write H filename data w =
     (case files w filename of
        Some (File c) \<Rightarrow>
          (case write_fault H filename data of
             None \<Rightarrow> (None, w\<lparr>files := (files w)(filename \<mapsto> File (c @ data))\<rparr>)
           | Some (written, e) \<Rightarrow>
               (Some e, w\<lparr>files := (files w)(filename \<mapsto> File (c @ written))\<rparr>))
      | _ \<Rightarrow> (Some (OSError filename), w))"

text \<open>
  \<open>os.mkdir\<close> and \<open>os.makedirs(name)\<close> (with \<open>exist_ok=False\<close>): the missing
  ancestors first, a \<open>FileExistsError\<close> from them ignored, then the directory itself.
  The empty path names nothing, and a directory cannot be made below a regular file.
\<close>

definition mkdir :: "(string \<Rightarrow> node option) \<Rightarrow> string \<Rightarrow> error option \<times> (string \<Rightarrow> node option)" where
  "mkdir fs dname =
     (if dname = [] then (Some (FileNotFoundError dname), fs)
      else if fs dname \<noteq> None then (Some (FileExistsError dname), fs)
      else if dirname dname \<noteq> [] \<and> fs (dirname dname) = None
        then (Some (FileNotFoundError dname), fs)
      else if dirname dname \<noteq> [] \<and> fs (dirname dname) \<noteq> Some Dir
        then (Some (NotADirectoryError dname), fs)
      else (None, fs(dname \<mapsto> Dir)))"

definition makedirs_split :: "string \<Rightarrow> string \<times> string" where
  "makedirs_split dname =
     (if snd (path_split dname) = [] then path_split (fst (path_split dname))
      else path_split dname)"

function makedirs :: "(string \<Rightarrow> node option) \<Rightarrow> string \<Rightarrow> error option \<times> (string \<Rightarrow> node option)" where
  "makedirs fs dname =
     (if fst (makedirs_split dname) \<noteq> [] \<and> snd (makedirs_split dname) \<noteq> []
         \<and> fs (fst (makedirs_split dname)) = None
      then
        (case makedirs fs (fst (makedirs_split dname)) of
           (Some (FileExistsError _), fs1) \<Rightarrow>
             if snd (makedirs_split dname) = ''.'' then (None, fs1) else mkdir fs1 dname
         | (Some e, fs1) \<Rightarrow> (Some e, fs1)
         | (None, fs1) \<Rightarrow>
             if snd (makedirs_split dname) = ''.'' then (None, fs1) else mkdir fs1 dname)
      else mkdir fs dname)"
  by pat_completeness auto

termination makedirs
proof (relation "measure (\<lambda>(fs, dname). length dname)")
  show "wf (measure (\<lambda>(fs :: string \<Rightarrow> node option, dname :: string). length dname))"
    by simp
next
  fix fs :: "string \<Rightarrow> node option" and dname :: string
  assume "fst (makedirs_split dname) \<noteq> [] \<and> snd (makedirs_split dname) \<noteq> []
            \<and> fs (fst (makedirs_split dname)) = None"
  then have tail: "snd (makedirs_split dname) \<noteq> []" by simp
  have strip: "length (rstrip c s) \<le> length s" for c s
    unfolding rstrip_def using length_dropWhile_le[of "\<lambda>x. x = c" "rev s"] by simp
  have split: "length (fst (path_split p)) + length (snd (path_split p)) \<le> length p" for p
  proof -
    let ?tail = "rev (takeWhile (\<lambda>x. x \<noteq> CHR ''/'') (rev p))"
    let ?head = "take (length p - length ?tail) p"
    have t: "length ?tail \<le> length p"
      using length_takeWhile_le[of "\<lambda>x. x \<noteq> CHR ''/''" "rev p"] by simp
    have h: "length ?head = length p - length ?tail" by simp
    have "length (fst (path_split p)) \<le> length ?head"
      unfolding path_split_def Let_def using strip[of "CHR ''/''" ?head]
      by (simp del: length_take)
    moreover have "snd (path_split p) = ?tail"
      unfolding path_split_def Let_def by simp
    ultimately show ?thesis using t h by simp
  qed
  have shorter: "length (fst (makedirs_split dname)) < length dname"
  proof (cases "snd (path_split dname) = []")
    case True
    then have eq: "makedirs_split dname = path_split (fst (path_split dname))"
      by (simp add: makedirs_split_def)
    with tail have ne: "snd (path_split (fst (path_split dname))) \<noteq> []" by simp
    have "length (fst (path_split (fst (path_split dname)))) < length (fst (path_split dname))"
      using split[of "fst (path_split dname)"] ne
      by (cases "snd (path_split (fst (path_split dname)))") auto
    moreover have "length (fst (path_split dname)) \<le> length dname"
      using split[of dname] by simp
    ultimately show ?thesis using eq by simp
  next
    case False
    then have eq: "makedirs_split dname = path_split dname"
      by (simp add: makedirs_split_def)
    show ?thesis using split[of dname] False eq
      by (cases "snd (path_split dname)") auto
  qed
  then show "((fs, fst (makedirs_split dname)), (fs, dname))
               \<in> measure (\<lambda>(fs, dname). length dname)"
    by simp
qed

section \<open>The output writer\<close>

text \<open>
  \<open>re.sub(r'\.html$', ext, url)\<close>: \<open>$\<close> matches at the end of the string and also just
  before a newline that ends it.
\<close>

definition sub_html_suffix :: "string \<Rightarrow> string \<Rightarrow> string" where
  "sub_html_suffix ext u =
     (if endswith u ''.html'' then take (length u - 5) u @ ext
      else if endswith u (''.html'' @ [CHR 0x0A]) then take (length u - 6) u @ ext @ [CHR 0x0A]
      else u)"

definition module_path :: "args \<Rightarrow> Module \<Rightarrow> string \<Rightarrow> string" where
  "module_path A m ext = join (output_dir A) (split_on (CHR ''/'') (sub_html_suffix ext (url m)))"

text \<open>The loop \<open>for pth in paths\<close> of \<open>_quit_if_exists\<close>.\<close>

fun quit_on_paths :: "string list \<Rightarrow> world \<Rightarrow> error option \<times> world" where
  "quit_on_paths [] w = (None, w)"
| "quit_on_paths (pth # rest) w =
     (if files w pth \<noteq> None then
        (Some (SystemExit 1),
         eprint (''File '' @ [CHR 0x27] @ pth @ [CHR 0x27]
                   @ '' already exists. Delete it, or run with --force'') w)
      else quit_on_paths rest w)"

definition quit_if_exists :: "args \<Rightarrow> Module \<Rightarrow> string \<Rightarrow> world \<Rightarrow> error option \<times> world" where
  "quit_if_exists A m ext w =
     (if force A then (None, w)
      else quit_on_paths
             ([module_path A m ext]
                @ (if is_package m then [dirname (module_path A m ext)] else [])) w)"

text \<open>
  \<open>try: os.unlink(filename) except Exception: pass\<close>.
\<close>

definition unlink_quietly :: "string \<Rightarrow> world \<Rightarrow> world" where
  "unlink_quietly filename w =
     (case unlink (files w) filename of Inl _ \<Rightarrow> w | Inr fs \<Rightarrow> w\<lparr>files := fs\<rparr>)"

text \<open>
  The context manager \<open>_open_write_file\<close> around a \<open>with\<close> body. The body is any
  action on the world that may raise. An \<open>Exception\<close> from \<open>open\<close> or from the body
  is caught, the file unlinked and the exception raised again; after a body that
  returns, the file name is printed.
\<close>

definition open_write_file ::
  "string \<Rightarrow> (world \<Rightarrow> error option \<times> world) \<Rightarrow> world \<Rightarrow> error option \<times> world"
where
  "open_write_file filename body w =
     (case open_w (files w) filename of
        Inl e \<Rightarrow> (Some e, if is_Exception e then unlink_quietly filename w else w)
      | Inr fs \<Rightarrow>
          (case body (w\<lparr>files := fs\<rparr>) of
             (Some e, w1) \<Rightarrow> (Some e, if is_Exception e then unlink_quietly filename w1 else w1)
           | (None, w1) \<Rightarrow> (None, print filename w1)))"

text \<open>The body of the \<open>with\<close> block in \<open>recursive_write_files\<close>.\<close>

definition write_rendered :: "host \<Rightarrow> Module \<Rightarrow> string \<Rightarrow> string \<Rightarrow> world \<Rightarrow> error option \<times> world" where
  "write_rendered H m ext filepath w =
     (if ext = ''.html'' then
        (case m_html m of Inl e \<Rightarrow> (Some e, w) | Inr s \<Rightarrow> f_write H filepath s w)
      else if ext = ''.md'' then
        (case m_text m of Inl e \<Rightarrow> (Some e, w) | Inr s \<Rightarrow> f_write H filepath s w)
      else (None, w))"

fun recursive_write_files :: "args \<Rightarrow> host \<Rightarrow> Module \<Rightarrow> string \<Rightarrow> world \<Rightarrow> error option \<times> world"
and write_submodules :: "args \<Rightarrow> host \<Rightarrow> Module list \<Rightarrow> string \<Rightarrow> world \<Rightarrow> error option \<times> world"
where
  "recursive_write_files A H (Module n u p h t subs d) ext w =
     (if ext \<noteq> ''.html'' \<and> ext \<noteq> ''.md'' then (Some AssertionError, w)
      else
        (case (if files w (dirname (module_path A (Module n u p h t subs d) ext)) = None
               then makedirs (files w) (dirname (module_path A (Module n u p h t subs d) ext))
               else (None, files w)) of
           (Some e, fs) \<Rightarrow> (Some e, w\<lparr>files := fs\<rparr>)
         | (None, fs) \<Rightarrow>
             (case open_write_file (module_path A (Module n u p h t subs d) ext)
                     (write_rendered H (Module n u p h t subs d) ext
                        (module_path A (Module n u p h t subs d) ext))
                     (w\<lparr>files := fs\<rparr>) of
                (Some e, w1) \<Rightarrow> (Some e, w1)
              | (None, w1) \<Rightarrow> write_submodules A H subs ext w1)))"
| "write_submodules A H [] ext w = (None, w)"
| "write_submodules A H (submodule # rest) ext w =
     (case recursive_write_files A H submodule ext w of
        (Some e, w1) \<Rightarrow> (Some e, w1)
      | (None, w1) \<Rightarrow> write_submodules A H rest ext w1)"

section \<open>Writing the search index\<close>

definition write_index_js :: "host \<Rightarrow> string \<Rightarrow> string list \<Rightarrow> json list \<Rightarrow> world \<Rightarrow> error option \<times> world" where
  "write_index_js H filename urls idx w =
     (case f_write H filename ''URLS='' w of
        (Some e, w1) \<Rightarrow> (Some e, w1)
      | (None, w1) \<Rightarrow>
     (case f_write H filename (json_dump (JArr (map JStr urls))) w1 of
        (Some e, w2) \<Rightarrow> (Some e, w2)
      | (None, w2) \<Rightarrow>
     (case f_write H filename ('';'' @ [CHR 0x0A] @ ''INDEX='') w2 of
        (Some e, w3) \<Rightarrow> (Some e, w3)
      | (None, w3) \<Rightarrow> f_write H filename (json_dump (JArr idx)) w3)))"

definition write_search_html :: "host \<Rightarrow> string \<Rightarrow> Module \<Rightarrow> world \<Rightarrow> error option \<times> world" where
  "write_search_html H filename top_module w =
     (case render_search H top_module of
        Inl e \<Rightarrow> (Some e, w)
      | Inr rendered_template \<Rightarrow> f_write H filename rendered_template w)"

definition generate_lunr_search ::
  "args \<Rightarrow> host \<Rightarrow> Module \<Rightarrow> bool \<Rightarrow> world \<Rightarrow> error option \<times> world"
where
  "generate_lunr_search A H top_module index_docstrings w =
     (case build_index (trim_docstring H) index_docstrings top_module of
        Inl e \<Rightarrow> (Some e, w)
      | Inr (urls, idx) \<Rightarrow>
          (let main_path =
                 join (output_dir A)
                   (if is_package top_module then split_on (CHR ''.'') (name top_module) else [])
           in case open_write_file (join main_path [''index.js''])
                     (write_index_js H (join main_path [''index.js'']) urls idx) w of
                (Some e, w1) \<Rightarrow> (Some e, w1)
              | (None, w1) \<Rightarrow>
                  open_write_file (join main_path [''search.html''])
                    (write_search_html H (join main_path [''search.html'']) top_module) w1))"

section \<open>The loop over the modules in \<open>main\<close>\<close>

text \<open>
  One turn of \<open>for module in modules\<close>; \<open>last_module\<close> is \<open>modules[-1]\<close>. The
  comparison \<open>module != modules[-1]\<close> is one of object identity in Python; modules are
  values here, so it is read as inequality of values, which is the same as long as the
  modules of the list are pairwise different. It is only used when writing to \<open>stdout\<close>.
\<close>

definition write_module :: "args \<Rightarrow> host \<Rightarrow> Module \<Rightarrow> Module \<Rightarrow> world \<Rightarrow> error option \<times> world" where
  "write_module A H last_module m w =
     (if html A then
        (case quit_if_exists A m ''.html'' w of
           (Some e, w1) \<Rightarrow> (Some e, w1)
         | (None, w1) \<Rightarrow>
        (case recursive_write_files A H m ''.html'' w1 of
           (Some e, w2) \<Rightarrow> (Some e, w2)
         | (None, w2) \<Rightarrow>
        (case lunr_search H of
           None \<Rightarrow> (None, w2)
         | Some index_docstrings \<Rightarrow> generate_lunr_search A H m index_docstrings w2)))
      else if output_dir A \<noteq> [] then
        (case quit_if_exists A m ''.md'' w of
           (Some e, w1) \<Rightarrow> (Some e, w1)
         | (None, w1) \<Rightarrow> recursive_write_files A H m ''.md'' w1)
      else
        (case m_text m of
           Inl e \<Rightarrow> (Some e, w)
         | Inr s \<Rightarrow>
             (None, w\<lparr>stdout := stdout w @ s
                        @ (if m \<noteq> last_module then [CHR 0x0A, CHR 0x0A, CHR 0x0A] else [CHR 0x0A])\<rparr>)))"

fun write_modules :: "args \<Rightarrow> host \<Rightarrow> Module \<Rightarrow> Module list \<Rightarrow> world \<Rightarrow> error option \<times> world" where
  "write_modules A H last_module [] w = (None, w)"
| "write_modules A H last_module (m # rest) w =
     (case write_module A H last_module m w of
        (Some e, w1) \<Rightarrow> (Some e, w1)
      | (None, w1) \<Rightarrow> write_modules A H last_module rest w1)"

text \<open>
  The run of \<open>main\<close> from the loop on, with the process exit status: that of
  \<open>sys.exit\<close>, 1 for an uncaught exception, 0 otherwise.
\<close>

definition run_modules :: "args \<Rightarrow> host \<Rightarrow> Module list \<Rightarrow> world \<Rightarrow> nat \<times> world" where
  "run_modules A H ms w =
     (case write_modules A H (last ms) ms w of
        (None, w1) \<Rightarrow> (0, w1)
      | (Some (SystemExit n), w1) \<Rightarrow> (n, w1)
      | (Some e, w1) \<Rightarrow> (1, w1))"

subsection \<open>Concrete runs of the writer\<close>

text \<open>
  HTML output into \<open>html\<close> without \<open>--force\<close>; a host where every write succeeds and
  one where every write fails after three characters; two modules without submodules;
  a world in which \<open>html\<close> exists and is empty, and one left by an earlier run that
  documented \<open>b\<close> only.
\<close>

definition demo_args :: args where
  "demo_args = \<lparr>ignore = [], output_dir = ''html'', force = False, html = True\<rparr>"

definition plain_host :: host where
  "plain_host =
     \<lparr>write_fault = (\<lambda>f d. None),
      render_search = (\<lambda>m. Inr ''<search>''),
      trim_docstring = (\<lambda>s. s),
      lunr_search = None\<rparr>"

definition faulty_host :: host where
  "faulty_host =
     \<lparr>write_fault = (\<lambda>f d. Some (take 3 d, OSError ''disk full'')),
      render_search = (\<lambda>m. Inr ''<search>''),
      trim_docstring = (\<lambda>s. s),
      lunr_search = None\<rparr>"

definition mod_a :: Module where
  "mod_a = Module ''a'' ''a.html'' False (Inr ''<a>'') (Inr ''a'') []
             (Doc ''a'' \<lparr>mod_name = ''a'', mod_url = ''a.html''\<rparr> [] False [])"

definition mod_b :: Module where
  "mod_b = Module ''b'' ''b.html'' False (Inr ''<b>'') (Inr ''b'') []
             (Doc ''b'' \<lparr>mod_name = ''b'', mod_url = ''b.html''\<rparr> [] False [])"

definition fresh_world :: world where
  "fresh_world =
     \<lparr>files = (\<lambda>p. if p = ''html'' then Some Dir else None), stdout = [], stderr = []\<rparr>"

definition second_run_world :: world where
  "second_run_world =
     \<lparr>files = (\<lambda>p. if p = ''html'' then Some Dir
                     else if p = ''html/b.html'' then Some (File ''<b>'') else None),
      stdout = [], stderr = []\<rparr>"

text \<open>A world in which the folder of the package \<open>pkg\<close> has been written.\<close>

definition pkg_world :: world where
  "pkg_world =
     \<lparr>files = (\<lambda>p. if p = ''html'' \<or> p = ''html/pkg'' then Some Dir else None),
      stdout = [], stderr = []\<rparr>"

section \<open>The live server: \<open>_WebDoc\<close>\<close>

text \<open>
  What a request handler reads from outside: the options, the three URL suffix constants
  of the \<open>pdoc\<close> package, the reflection layer (\<open>reimport\<close> is \<open>pdoc.import_module\<close>
  as called by the handler), \<open>str(os.stat(f).st_mtime)\<close>, \<open>os.path.isfile\<close>,
  \<open>pdoc.html(name, **template_config)\<close>, the page of the root listing, and
  \<open>self.html()\<close> with the text of the traceback when it raises.
\<close>

record server =
  srv_args :: args
  URL_PACKAGE_SUFFIX :: string
  URL_INDEX_MODULE_SUFFIX :: string
  URL_MODULE_SUFFIX :: string
  reimport :: "string \<Rightarrow> error + pyobj"
  stat_mtime :: "string \<Rightarrow> error + string"
  isfile :: "string \<Rightarrow> bool"
  pdoc_html :: "string \<Rightarrow> error + string"
  root_page :: "error + string"
  live_html :: "string \<Rightarrow> string + string"

record request =
  path :: string
  headers :: "string \<Rightarrow> string option"
  log_request_on :: bool

text \<open>
  What the handler did: the status line sent, the headers, the body, and the status
  codes that \<open>send_response\<close> handed to \<open>log_request\<close>. \<open>NoResponse\<close> is a handler
  that returns without sending anything.
\<close>

datatype response =
    Response (status: nat) (headers_out: "(string \<times> string) list") (resp_body: string)
      (logged: "nat list")
  | NoResponse

definition send_response :: "bool \<Rightarrow> nat \<Rightarrow> (string \<times> string) list \<Rightarrow> string \<Rightarrow> response" where
  "send_response log_on code hs out = Response code hs out (if log_on then [code] else [])"

text \<open>\<open>s[:-n]\<close>; for \<open>n = 0\<close> this is \<open>s[:0]\<close>, the empty string.\<close>

definition drop_last :: "nat \<Rightarrow> string \<Rightarrow> string" where
  "drop_last n s = (if n = 0 then [] else take (length s - n) s)"

text \<open>The loop \<open>for suffix in (...)\<close> of \<open>import_path_from_req_url\<close>, up to its \<open>break\<close>.\<close>

fun strip_first_suffix :: "string list \<Rightarrow> string \<Rightarrow> string" where
  "strip_first_suffix [] pth = pth"
| "strip_first_suffix (suffix # rest) pth =
     (if endswith pth suffix then drop_last (length suffix) pth
      else strip_first_suffix rest pth)"

definition import_path_from_req_url :: "server \<Rightarrow> string \<Rightarrow> string" where
  "import_path_from_req_url S p =
     map (\<lambda>c. if c = CHR ''/'' then CHR ''.'' else c)
       (strip_first_suffix
          [''/'', URL_PACKAGE_SUFFIX S, URL_INDEX_MODULE_SUFFIX S, URL_MODULE_SUFFIX S]
          (lstrip (CHR ''/'') (hd (split_on (CHR ''#'') p))))"

text \<open>
  \<open>check_modified\<close>: the status and whether \<open>log_request\<close> is still the logging one.
  Only an \<open>ImportError\<close> is caught; a module without \<open>__file__\<close> raises
  \<open>AttributeError\<close>.
\<close>

definition check_modified :: "server \<Rightarrow> request \<Rightarrow> error + nat \<times> bool" where
  "check_modified S r =
     (case (case reimport S (import_path_from_req_url S (path r)) of
              Inl e \<Rightarrow> Inl e
            | Inr m \<Rightarrow>
                (case file_attr m of
                   None \<Rightarrow> Inl AttributeError
                 | Some f \<Rightarrow> stat_mtime S f)) of
        Inl e \<Rightarrow> if is_ImportError e then Inr (404, log_request_on r) else Inl e
      | Inr new_etag \<Rightarrow>
          (let old_etag = (case headers r ''If-None-Match'' of None \<Rightarrow> new_etag | Some v \<Rightarrow> v)
           in if old_etag = new_etag then Inr (304, False)
              else Inr (205, log_request_on r)))"

definition do_HEAD :: "server \<Rightarrow> request \<Rightarrow> error + response" where
  "do_HEAD S r =
     (if path r \<noteq> ''/'' then
        (case check_modified S r of
           Inl e \<Rightarrow> Inl e
         | Inr (code, log_on) \<Rightarrow>
             Inr (send_response log_on code [(''Content-type'', ''text/html; charset=utf-8'')] []))
      else Inr (send_response (log_request_on r) 200
                  [(''Content-type'', ''text/html; charset=utf-8'')] []))"

definition redirect :: "request \<Rightarrow> string \<Rightarrow> response" where
  "redirect r location = send_response (log_request_on r) 302 [(''Location'', location)] []"

text \<open>The inner function \<open>exists\<close> of \<open>resolve_ext\<close>.\<close>

definition exists_ext :: "server \<Rightarrow> string \<Rightarrow> string option" where
  "exists_ext S p0 =
     (let p = join (output_dir (srv_args S)) [p0];
          pkg = join p [lstrip (CHR ''/'') (URL_PACKAGE_SUFFIX S)];
          modf = p @ URL_MODULE_SUFFIX S
      in if isfile S pkg then Some (drop (length (output_dir (srv_args S))) pkg)
         else if isfile S modf then Some (drop (length (output_dir (srv_args S))) modf)
         else None)"

text \<open>\<open>path.join(*parts[0:i])\<close>; with no component at all the call is a \<open>TypeError\<close>,
  which cannot happen for \<open>i \<ge> 1\<close> since \<open>split\<close> returns at least one part.\<close>

definition join_parts :: "string list \<Rightarrow> string" where
  "join_parts ps = (case ps of [] \<Rightarrow> [] | a # p \<Rightarrow> join a p)"

text \<open>The loop \<open>for i in range(len(parts), 0, -1)\<close>, given the values of \<open>i\<close> still to come.\<close>

fun resolve_loop :: "server \<Rightarrow> string \<Rightarrow> string list \<Rightarrow> nat list \<Rightarrow> string option" where
  "resolve_loop S import_path parts [] = None"
| "resolve_loop S import_path parts (i # rest) =
     (case exists_ext S (join_parts (take i parts)) of
        Some realp \<Rightarrow> Some (''/'' @ lstrip (CHR ''/'') realp @ ''#'' @ import_path)
      | None \<Rightarrow> resolve_loop S import_path parts rest)"

definition resolve_ext :: "server \<Rightarrow> string \<Rightarrow> string option" where
  "resolve_ext S import_path =
     (let parts = split_on (CHR ''.'') import_path
      in resolve_loop S import_path parts (rev [1..<Suc (length parts)]))"

definition html_headers :: "(string \<times> string) list" where
  "html_headers = [(''Content-type'', ''text/html; charset=utf-8'')]"

text \<open>
  \<open>do_GET\<close>. The listing of the root path is taken as given (\<open>root_page\<close>); an exception
  there is not caught. In the branch of the external links \<open>except Exception\<close> turns a
  failed generation into the 404 page. Line breaks of the error page become \<open><br>\<close>.
\<close>

definition do_GET :: "server \<Rightarrow> request \<Rightarrow> error + response" where
  "do_GET S r =
     (if path r = ''/favicon.ico'' then Inr NoResponse
      else if path r = ''/'' then
        (case root_page S of
           Inl e \<Rightarrow> Inl e
         | Inr out \<Rightarrow> Inr (send_response (log_request_on r) 200 html_headers out))
      else if endswith (path r) ''.ext'' then
        (let import_path = lstrip (CHR ''/'') (drop_last 4 (path r)) in
         case resolve_ext S import_path of
           None \<Rightarrow>
             (case pdoc_html S (hd (split_on (CHR ''.'') import_path)) of
                Inl e \<Rightarrow>
                  if is_Exception e then
                    Inr (send_response (log_request_on r) 404 html_headers
                           (''External identifier <code>'' @ import_path @ ''</code> not found.''))
                  else Inl e
              | Inr out \<Rightarrow> Inr (send_response (log_request_on r) 200 html_headers out))
         | Some resolved \<Rightarrow> Inr (redirect r resolved))
      else if \<not> (endswith (path r) ''/'' \<or> endswith (path r) ''.html'') then
        Inr (redirect r (path r @ ''/''))
      else if endswith (path r) (URL_PACKAGE_SUFFIX S) then
        Inr (redirect r (drop_last (length (URL_PACKAGE_SUFFIX S)) (path r) @ ''/''))
      else
        (case live_html S (import_path_from_req_url S (path r)) of
           Inr out \<Rightarrow> Inr (send_response (log_request_on r) 200 html_headers out)
         | Inl trace \<Rightarrow>
             Inr (send_response (log_request_on r) 404 html_headers
                    (concat (map (\<lambda>c. if c = CHR 0x0A then ''<br>'' else [c])
                       (''Error importing module <code>''
                          @ import_path_from_req_url S (path r) @ ''</code>:''
                          @ [CHR 0x0A, CHR 0x0A] @ ''<pre>'' @ trace @ ''</pre>''))))))"

subsection \<open>A concrete server\<close>

text \<open>
  Output in \<open>html\<close>, where \<open>html/pkg/sub.html\<close> is the only generated file; the module
  \<open>pkg.sub\<close> imports from \<open>/src/pkg/sub.py\<close>, every other import fails; the suffix
  constants have the values of the \<open>pdoc\<close> package.
\<close>

definition demo_server :: server where
  "demo_server =
     \<lparr>srv_args = \<lparr>ignore = [], output_dir = ''html'', force = False, html = False\<rparr>,
      URL_PACKAGE_SUFFIX = ''/index.html'',
      URL_INDEX_MODULE_SUFFIX = ''.m.html'',
      URL_MODULE_SUFFIX = ''.html'',
      reimport = (\<lambda>p. if p = ''pkg.sub'' then Inr \<lparr>file_attr = Some ''/src/pkg/sub.py''\<rparr>
                       else Inl (ImportError p)),
      stat_mtime = (\<lambda>f. Inr ''1700000000.5''),
      isfile = (\<lambda>f. f = ''html/pkg/sub.html''),
      pdoc_html = (\<lambda>n. Inl (ImportError n)),
      root_page = Inr ''<html></html>'',
      live_html = (\<lambda>p. Inl ''Traceback'')\<rparr>"

definition head_request :: "string option \<Rightarrow> request" where
  "head_request etag =
     \<lparr>path = ''/pkg/sub.html'',
      headers = (\<lambda>h. if h = ''If-None-Match'' then etag else None),
      log_request_on = True\<rparr>"

definition get_request :: "string \<Rightarrow> request" where
  "get_request p = \<lparr>path = p, headers = (\<lambda>h. None), log_request_on = True\<rparr>"

text \<open>The same server when the only generated file is the index of the package \<open>pkg\<close>.\<close>

definition index_server :: server where
  "index_server = demo_server\<lparr>isfile := (\<lambda>f. f = ''html/pkg/index.html'')\<rparr>"

section \<open>Discovery: properties\<close>

subsection \<open>The loop over \<open>subDirs\<close>\<close>

text \<open>
  If the loop returns normally, every element from the current index on was classified
  as a unit: an element that is not a unit is appended again and met again later.
\<close>

lemma check_subdirs_normal:
  assumes "check_subdirs E i subDirs packageMods = Some y"
  shows "\<forall>r. y = Inr r \<longrightarrow>
           (\<forall>j. i \<le> j \<and> j < length subDirs \<longrightarrow> check_if_module E (subDirs ! j) = Inr True)"
  using assms
proof (induction rule: check_subdirs.raw_induct[rotated 1, consumes 1])
  case (1 f E i subDirs packageMods y)
  show ?case
  proof (intro allI impI, elim conjE)
    fix r j
    assume y: "y = Inr r" and ij: "i \<le> j" and jl: "j < length subDirs"
    from ij jl have il: "i < length subDirs" by simp
    show "check_if_module E (subDirs ! j) = Inr True"
    proof (cases "check_if_module E (subDirs ! i)")
      case (Inl e)
      with 1(2) il y show ?thesis by simp
    next
      case (Inr b)
      show ?thesis
      proof (cases b)
        case True
        show ?thesis
        proof (cases "new_Module E (subDirs ! i)")
          case (Inl e)
          with 1(2) il y Inr True show ?thesis by simp
        next
          case m: (Inr m)
          with 1(2) il Inr True
          have "f E (Suc i) subDirs (packageMods @ [m]) = Some y" by simp
          from 1(1)[OF this] y
          have later: "\<forall>j. Suc i \<le> j \<and> j < length subDirs \<longrightarrow>
                         check_if_module E (subDirs ! j) = Inr True" by simp
          show ?thesis
          proof (cases "j = i")
            case True
            with Inr \<open>b\<close> show ?thesis by simp
          next
            case False
            with ij jl later show ?thesis by simp
          qed
        qed
      next
        case False
        with 1(2) il Inr
        have "f E (Suc i) (subDirs @ [subDirs ! i]) packageMods = Some y" by simp
        from 1(1)[OF this] y
        have "\<forall>j. Suc i \<le> j \<and> j < length (subDirs @ [subDirs ! i]) \<longrightarrow>
                 check_if_module E ((subDirs @ [subDirs ! i]) ! j) = Inr True" by simp
        then have "Suc i \<le> length subDirs \<and> length subDirs < length (subDirs @ [subDirs ! i]) \<longrightarrow>
                 check_if_module E ((subDirs @ [subDirs ! i]) ! length subDirs) = Inr True"
          by (rule spec)
        with il have "check_if_module E (subDirs ! i) = Inr True" by simp
        with Inr False show ?thesis by simp
      qed
    qed
  qed
qed

text \<open>An exception leaving the loop comes from classifying or constructing an element.\<close>

lemma check_subdirs_raises:
  assumes "check_subdirs E i subDirs packageMods = Some y"
  shows "\<forall>e. y = Inl e \<longrightarrow>
           (\<exists>d \<in> set subDirs. check_if_module E d = Inl e \<or> new_Module E d = Inl e)"
  using assms
proof (induction rule: check_subdirs.raw_induct[rotated 1, consumes 1])
  case (1 f E i subDirs packageMods y)
  show ?case
  proof (intro allI impI)
    fix e
    assume y: "y = Inl e"
    show "\<exists>d \<in> set subDirs. check_if_module E d = Inl e \<or> new_Module E d = Inl e"
    proof (cases "i < length subDirs")
      case False
      with 1(2) y show ?thesis by simp
    next
      case il: True
      then have mem: "subDirs ! i \<in> set subDirs" by simp
      show ?thesis
      proof (cases "check_if_module E (subDirs ! i)")
        case (Inl e')
        with 1(2) il y have "e' = e" by simp
        with Inl mem show ?thesis by blast
      next
        case (Inr b)
        show ?thesis
        proof (cases b)
          case True
          show ?thesis
          proof (cases "new_Module E (subDirs ! i)")
            case (Inl e')
            with 1(2) il y Inr True have "e' = e" by simp
            with Inl mem show ?thesis by blast
          next
            case m: (Inr m)
            with 1(2) il Inr True
            have "f E (Suc i) subDirs (packageMods @ [m]) = Some y" by simp
            from 1(1)[OF this] y show ?thesis by simp
          qed
        next
          case False
          with 1(2) il Inr
          have "f E (Suc i) (subDirs @ [subDirs ! i]) packageMods = Some y" by simp
          from 1(1)[OF this] y mem show ?thesis by auto
        qed
      qed
    qed
  qed
qed


lemma plain_tree_check_subdirs: "check_subdirs plain_tree 0 [''/r/a''] [] = None"
proof (cases "check_subdirs plain_tree 0 [''/r/a''] []")
  case None
  then show ?thesis .
next
  case (Some y)
  show ?thesis
  proof (cases y)
    case (Inl e)
    with check_subdirs_raises[OF Some] show ?thesis
      by (simp add: plain_tree_def check_if_module_def)
  next
    case (Inr r)
    with check_subdirs_normal[OF Some]
    have "check_if_module plain_tree ([''/r/a''] ! 0) = Inr True" by simp
    then show ?thesis by (simp add: plain_tree_def check_if_module_def)
  qed
qed

lemma plain_tree_select:
  "select_subdirs plain_tree ''/r'' (walk_dirs plain_tree ''/r'') = Inr [''/r/a'']"
  by (simp add: plain_tree_def SKIP_DIRS_def SKIP_PREPEND_def startswith_def endswith_def)

text \<open>
  C1 (discovery terminates; a non-unit subdirectory is pushed onto the next frontier and
  not re-examined within the same level). On the root \<open>/r\<close>, which is not a unit and
  has the single subdirectory \<open>a\<close>, not a unit either, the loop of
  \<open>_check_if_package\<close> appends \<open>/r/a\<close> to the list it iterates over and meets it
  again, forever: \<open>getPackages\<close> with depth 1 does not return.
\<close>

theorem getPackages_plain_subdir_diverges: "getPackages plain_tree [''/r''] 1 = None"
proof -
  have pk: "check_if_package plain_tree ''/r'' = None"
    unfolding check_if_package_def Let_def
    using plain_tree_select plain_tree_check_subdirs
    by (simp add: plain_tree_def check_if_module_def)
  have "scan_level plain_tree [''/r''] [] [] = None"
    using pk by (simp add: scan_level_def plain_tree_def)
  then show ?thesis
    unfolding getPackages_def by (subst scan_loop.simps) simp
qed

lemma scan_packages_missing:
  "\<forall>p \<in> set roots. \<not> isdir E (abspath E p) \<Longrightarrow>
   scan_packages E roots s = Some (Inr (s\<lparr>errs := errs s @ roots\<rparr>))"
  by (induction roots arbitrary: s) simp_all

text \<open>
  C3 (only non-existent roots: NotFound listing exactly those paths, raised at the first
  level, whatever the depth). When no root is an existing directory and the loop runs at
  all (\<open>depth \<noteq> 0\<close>), the first round already raises \<open>FileNotFoundError\<close>, and
  so does \<open>getPackages\<close>; the message lists the roots in their order, joined by
  a comma and a space.
\<close>

theorem getPackages_missing_roots_NotFound:
  assumes "\<forall>p \<in> set roots. \<not> isdir E (abspath E p)" and "depth \<noteq> 0"
  shows "scan_level E roots [] [] =
           Some (Inl (FileNotFoundError (''The directories '' @ str_join '', '' roots @ '' do not exist.'')))
       \<and> getPackages E roots depth =
           Some (Inl (FileNotFoundError (''The directories '' @ str_join '', '' roots @ '' do not exist.'')))"
proof -
  have lvl: "scan_level E roots [] [] =
           Some (Inl (FileNotFoundError (''The directories '' @ str_join '', '' roots @ '' do not exist.'')))"
    unfolding scan_level_def by (simp add: scan_packages_missing[OF assms(1)])
  moreover have "getPackages E roots depth =
           Some (Inl (FileNotFoundError (''The directories '' @ str_join '', '' roots @ '' do not exist.'')))"
    unfolding getPackages_def using assms(2) lvl by (subst scan_loop.simps) simp
  ultimately show ?thesis by simp
qed

theorem getPackages_missing_roots_NotFound_witness:
  "\<not> isdir empty_dir (abspath empty_dir ''/x'') \<and> \<not> isdir empty_dir (abspath empty_dir ''/y'') \<and>
   scan_level empty_dir [''/x'', ''/y''] [] [] =
     Some (Inl (FileNotFoundError ''The directories /x, /y do not exist.'')) \<and>
   getPackages empty_dir [''/x'', ''/y''] 2 =
     Some (Inl (FileNotFoundError ''The directories /x, /y do not exist.''))"
  using getPackages_missing_roots_NotFound[of "[''/x'', ''/y'']" empty_dir 2]
  by (simp add: empty_dir_def)

text \<open>
  C2 (an existing root without any unit below it: Empty, after exactly \<open>maxDepth\<close>
  rounds). On the existing, empty directory \<open>/e\<close> with depth 3 the first round finds
  no package, module or subdirectory and raises \<open>FileNotFoundError\<close> with an empty
  list of paths; \<open>ModuleNotFoundError\<close> is not raised and rounds 2 and 3 never run.
\<close>

theorem getPackages_empty_root_NotFound: "getPackages empty_dir [''/e''] 3 =
     Some (Inl (FileNotFoundError ''The directories  do not exist.''))"
proof -
  have cs: "check_subdirs empty_dir 0 [] [] = Some (Inr ([], []))"
    by (subst check_subdirs.simps) simp
  have pk: "check_if_package empty_dir ''/e'' = Some (Inr ([], False, []))"
    unfolding check_if_package_def Let_def using cs
    by (simp add: empty_dir_def check_if_module_def)
  have "scan_level empty_dir [''/e''] [] [] =
     Some (Inl (FileNotFoundError ''The directories  do not exist.''))"
    using pk by (simp add: scan_level_def empty_dir_def)
  then show ?thesis
    unfolding getPackages_def by (subst scan_loop.simps) simp
qed

section \<open>The search index: properties\<close>

lemma seen_from_first_seen:
  "seen_from K us = K @ filter (\<lambda>u. u \<notin> set K) (first_seen us)"
proof (induction us arbitrary: K)
  case Nil
  show ?case by simp
next
  case (Cons u us)
  show ?case
  proof (cases "u \<in> set K")
    case True
    then have "\<And>y. (y \<noteq> u \<and> y \<notin> set K) = (y \<notin> set K)" by auto
    with True Cons[of K] show ?thesis by simp
  next
    case False
    have "\<And>y. (y \<notin> set (K @ [u])) = (y \<noteq> u \<and> y \<notin> set K)" by auto
    with False Cons[of "K @ [u]"] show ?thesis by simp
  qed
qed

lemma first_seen_eq: "first_seen us = seen_from [] us"
  by (simp add: seen_from_first_seen)

lemma seen_from_append: "seen_from K (us @ vs) = seen_from (seen_from K us) vs"
  by (induction us arbitrary: K) simp_all

lemma seen_from_prefix: "\<exists>ext. seen_from K us = K @ ext"
  by (simp add: seen_from_first_seen)

lemma set_first_seen: "set (first_seen us) = set us"
  by (induction us) auto

lemma distinct_first_seen: "distinct (first_seen us)"
  by (induction us) (auto simp: set_first_seen)

lemma map_of_mem: "map_of C u = Some k \<Longrightarrow> u \<in> set (map fst C)"
  by (metis map_of_eq_None_iff option.distinct(1) set_map)

lemma inv_lookup:
  assumes "build_inv p s" and "map_of (url_cache s) u = Some k"
  shows "k < length (url_cache s) \<and> map fst (url_cache s) ! k = u"
proof -
  from assms(2) have "(u, k) \<in> set (url_cache s)" by (rule map_of_SomeD)
  then obtain i where i: "i < length (url_cache s)" "url_cache s ! i = (u, k)"
    by (auto simp: in_set_conv_nth)
  from assms(1) have "map snd (url_cache s) ! i = [0..<length (url_cache s)] ! i"
    by (simp add: build_inv_def)
  with i have "k = i" by simp
  with i show ?thesis by simp
qed

lemma inv_update:
  assumes inv: "build_inv p s"
    and d: "distinct (map fst cache')" and n: "map snd cache' = [0..<length cache']"
    and old: "\<And>u' k'. map_of (url_cache s) u' = Some k' \<Longrightarrow> map_of cache' u' = Some k'"
    and sub: "set lru' \<subseteq> insert (m, k) (set (lru s))"
    and u: "rel_url p m = Inr u" "map_of cache' u = Some k"
  shows "build_inv p (s\<lparr>url_cache := cache', lru := lru'\<rparr>)"
  unfolding build_inv_def
proof (intro conjI ballI)
  show "distinct (map fst (url_cache (s\<lparr>url_cache := cache', lru := lru'\<rparr>)))"
    using d by simp
  show "map snd (url_cache (s\<lparr>url_cache := cache', lru := lru'\<rparr>)) =
        [0..<length (url_cache (s\<lparr>url_cache := cache', lru := lru'\<rparr>))]"
    using n by simp
next
  fix e
  assume "e \<in> set (lru (s\<lparr>url_cache := cache', lru := lru'\<rparr>))"
  with sub have "e = (m, k) \<or> e \<in> set (lru s)" by auto
  then show "\<exists>u. rel_url p (fst e) = Inr u \<and>
      map_of (url_cache (s\<lparr>url_cache := cache', lru := lru'\<rparr>)) u = Some (snd e)"
  proof
    assume "e = (m, k)"
    with u show ?thesis by auto
  next
    assume "e \<in> set (lru s)"
    with inv obtain u' where "rel_url p (fst e) = Inr u'" "map_of (url_cache s) u' = Some (snd e)"
      by (auto simp: build_inv_def)
    with old show ?thesis by auto
  qed
qed

lemma to_url_id_spec:
  assumes inv: "build_inv p s" and call: "to_url_id p m s = Inr (k, s1)"
  shows "\<exists>u. rel_url p m = Inr u \<and> build_inv p s1
           \<and> map fst (url_cache s1) = seen_from (map fst (url_cache s)) [u]
           \<and> map_of (url_cache s1) u = Some k \<and> index s1 = index s"
proof -
  from inv have d0: "distinct (map fst (url_cache s))"
    and n0: "map snd (url_cache s) = [0..<length (url_cache s)]"
    by (simp_all add: build_inv_def)
  show ?thesis
  proof (cases "map_of (lru s) m")
    case (Some k')
    with call have k: "k' = k"
      and s1: "s1 = s\<lparr>url_cache := url_cache s, lru := (m, k) # filter (\<lambda>e. fst e \<noteq> m) (lru s)\<rparr>"
      by (auto simp: to_url_id_def)
    from Some k have "(m, k) \<in> set (lru s)" by (auto dest: map_of_SomeD)
    with inv obtain u where u: "rel_url p m = Inr u" "map_of (url_cache s) u = Some k"
      by (fastforce simp: build_inv_def)
    from u(2) have mem: "u \<in> set (map fst (url_cache s))" by (rule map_of_mem)
    have "set ((m, k) # filter (\<lambda>e. fst e \<noteq> m) (lru s)) \<subseteq> insert (m, k) (set (lru s))"
      by auto
    from inv_update[OF inv d0 n0 _ this u] have "build_inv p s1" unfolding s1 by simp
    with u mem s1 show ?thesis by auto
  next
    case None
    with call obtain cache' where
      body: "to_url_id_body p m (url_cache s) = Inr (k, cache')"
      and s1: "s1 = s\<lparr>url_cache := cache', lru := take lru_maxsize ((m, k) # lru s)\<rparr>"
      by (auto simp: to_url_id_def split: sum.splits)
    from body obtain u where u: "rel_url p m = Inr u"
      by (auto simp: to_url_id_body_def split: sum.splits)
    have sub: "set (take lru_maxsize ((m, k) # lru s)) \<subseteq> insert (m, k) (set (lru s))"
      using set_take_subset[of lru_maxsize "(m, k) # lru s"] by simp
    show ?thesis
    proof (cases "map_of (url_cache s) u")
      case (Some k')
      with body u have c: "cache' = url_cache s" "k' = k"
        by (auto simp: to_url_id_body_def)
      from Some have mem: "u \<in> set (map fst (url_cache s))" by (rule map_of_mem)
      from Some c have look: "map_of (url_cache s) u = Some k" by simp
      from inv_update[OF inv d0 n0 _ sub u look] have "build_inv p s1" unfolding s1 c by simp
      with u mem look c s1 show ?thesis by auto
    next
      case nk: None
      with body u have c: "cache' = url_cache s @ [(u, length (url_cache s))]"
          "k = length (url_cache s)"
        by (auto simp: to_url_id_body_def)
      from nk have nmem: "u \<notin> set (map fst (url_cache s))"
        by (simp add: map_of_eq_None_iff)
      have look: "map_of cache' u = Some k"
        using nk c by (simp add: map_add_def)
      have old: "map_of cache' u' = Some k'" if "map_of (url_cache s) u' = Some k'" for u' k'
        using that c by (simp add: map_add_def)
      have d: "distinct (map fst cache')" using d0 nmem c by simp
      have n: "map snd cache' = [0..<length cache']" using n0 c by simp
      from inv_update[OF inv d n old sub u look] have "build_inv p s1" unfolding s1 by simp
      with u nmem look c s1 show ?thesis by auto
    qed
  qed
qed

lemma traversed_refl: "build_inv p s \<Longrightarrow> traversed t i p s s []"
  by (simp add: traversed_def)

lemma traversed_trans:
  assumes a: "traversed t i p s s1 xs" and b: "traversed t i p s1 s2 ys"
  shows "traversed t i p s s2 (xs @ ys)"
proof -
  from a obtain ks1 where
    k1: "map fst (url_cache s1) = seen_from (map fst (url_cache s)) (map (ukey p) xs)"
        "length ks1 = length xs"
        "index s1 = index s @ map (\<lambda>(dobj, k). info t i dobj k) (zip xs ks1)"
        "\<forall>j < length xs. ks1 ! j < length (url_cache s1)
            \<and> rel_url p (module (xs ! j)) = Inr (map fst (url_cache s1) ! (ks1 ! j))"
    unfolding traversed_def by blast
  from b obtain ks2 where
    k2: "build_inv p s2"
        "map fst (url_cache s2) = seen_from (map fst (url_cache s1)) (map (ukey p) ys)"
        "length ks2 = length ys"
        "index s2 = index s1 @ map (\<lambda>(dobj, k). info t i dobj k) (zip ys ks2)"
        "\<forall>j < length ys. ks2 ! j < length (url_cache s2)
            \<and> rel_url p (module (ys ! j)) = Inr (map fst (url_cache s2) ! (ks2 ! j))"
    unfolding traversed_def by blast
  from seen_from_prefix[of "map fst (url_cache s1)" "map (ukey p) ys"] k2(2)
  obtain ext where ext: "map fst (url_cache s2) = map fst (url_cache s1) @ ext" by auto
  then have len: "length (url_cache s1) \<le> length (url_cache s2)"
    by (metis length_append length_map le_add1)
  have keys: "map fst (url_cache s2) = seen_from (map fst (url_cache s)) (map (ukey p) (xs @ ys))"
    using k1(1) k2(2) by (simp add: seen_from_append)
  have idx: "index s2 = index s @ map (\<lambda>(dobj, k). info t i dobj k) (zip (xs @ ys) (ks1 @ ks2))"
    using k1(2,3) k2(4) by simp
  have each: "\<forall>j < length (xs @ ys). (ks1 @ ks2) ! j < length (url_cache s2)
            \<and> rel_url p (module ((xs @ ys) ! j)) = Inr (map fst (url_cache s2) ! ((ks1 @ ks2) ! j))"
  proof (intro allI impI)
    fix j assume j: "j < length (xs @ ys)"
    show "(ks1 @ ks2) ! j < length (url_cache s2)
            \<and> rel_url p (module ((xs @ ys) ! j)) = Inr (map fst (url_cache s2) ! ((ks1 @ ks2) ! j))"
    proof (cases "j < length xs")
      case True
      with k1(4) have h: "ks1 ! j < length (url_cache s1)"
        "rel_url p (module (xs ! j)) = Inr (map fst (url_cache s1) ! (ks1 ! j))" by auto
      from h(1) have "map fst (url_cache s2) ! (ks1 ! j) = map fst (url_cache s1) ! (ks1 ! j)"
        unfolding ext by (simp add: nth_append)
      with h len True k1(2) show ?thesis by (simp add: nth_append)
    next
      case False
      with j have "j - length xs < length ys" by simp
      with k2(5) have "ks2 ! (j - length xs) < length (url_cache s2)"
        "rel_url p (module (ys ! (j - length xs))) =
           Inr (map fst (url_cache s2) ! (ks2 ! (j - length xs)))" by auto
      with False k1(2) show ?thesis by (simp add: nth_append)
    qed
  qed
  show ?thesis
    unfolding traversed_def
    using k2(1) keys idx each k1(2) k2(3)
    by (intro conjI exI[of _ "ks1 @ ks2"]) simp_all
qed

lemma build_inv_index: "build_inv p (s\<lparr>index := x\<rparr>) = build_inv p s"
  by (simp add: build_inv_def)

lemma traversed_step:
  assumes inv: "build_inv p s" and call: "to_url_id p (module dobj) s = Inr (k, s1)"
  shows "traversed t i p s (s1\<lparr>index := index s1 @ [info t i dobj k]\<rparr>) [dobj]"
proof -
  from to_url_id_spec[OF inv call] obtain u where
    u: "rel_url p (module dobj) = Inr u" "build_inv p s1"
       "map fst (url_cache s1) = seen_from (map fst (url_cache s)) [u]"
       "map_of (url_cache s1) u = Some k" "index s1 = index s"
    by blast
  from inv_lookup[OF u(2) u(4)] have k: "k < length (url_cache s1)" "map fst (url_cache s1) ! k = u"
    by simp_all
  from u(1) have uk: "ukey p dobj = u" by (simp add: ukey_def)
  show ?thesis
    unfolding traversed_def
    using u k uk
    by (intro conjI exI[of _ "[k]"]) (simp_all add: build_inv_index)
qed

lemma traversal:
  "(build_inv p s \<longrightarrow> recursive_add_to_index t i p dobj s = Inr s'
      \<longrightarrow> traversed t i p s s' (preorder dobj))"
  "(build_inv p s \<longrightarrow> add_members t i p members s = Inr s'
      \<longrightarrow> traversed t i p s s' (concat (map preorder members)))"
proof (induction t i p dobj s and t i p members s arbitrary: s' and s'
       rule: recursive_add_to_index_add_members.induct)
  case (1 t i p r m d f members s)
  show ?case
  proof (intro impI)
    assume inv: "build_inv p s"
      and run: "recursive_add_to_index t i p (Doc r m d f members) s = Inr s'"
    from run obtain k s1 where
      call: "to_url_id p m s = Inr (k, s1)"
      and rest: "add_members t i p members
                   (s1\<lparr>index := index s1 @ [info t i (Doc r m d f members) k]\<rparr>) = Inr s'"
      by (auto split: sum.splits)
    let ?s2 = "s1\<lparr>index := index s1 @ [info t i (Doc r m d f members) k]\<rparr>"
    from traversed_step[OF inv, of "Doc r m d f members" k s1 t i] call
    have st: "traversed t i p s ?s2 [Doc r m d f members]" by simp
    then have inv2: "build_inv p ?s2" by (simp add: traversed_def)
    from "1.IH"[OF call refl, of s'] inv2 rest
    have "traversed t i p ?s2 s' (concat (map preorder members))" by simp
    from traversed_trans[OF st this] show "traversed t i p s s' (preorder (Doc r m d f members))"
      by simp
  qed
next
  case (2 t i p s)
  show ?case by (auto simp: traversed_refl)
next
  case (3 t i p dobj rest s)
  show ?case
  proof (intro impI)
    assume inv: "build_inv p s" and run: "add_members t i p (dobj # rest) s = Inr s'"
    from run obtain s1 where
      one: "recursive_add_to_index t i p dobj s = Inr s1"
      and more: "add_members t i p rest s1 = Inr s'"
      by (auto split: sum.splits)
    from "3.IH"(1)[of s1] inv one have a: "traversed t i p s s1 (preorder dobj)" by simp
    then have "build_inv p s1" by (simp add: traversed_def)
    with "3.IH"(2)[OF one, of s'] more
    have "traversed t i p s1 s' (concat (map preorder rest))" by simp
    from traversed_trans[OF a this]
    show "traversed t i p s s' (concat (map preorder (dobj # rest)))" by simp
  qed
qed

lemma urls_of_inv: "build_inv p s \<Longrightarrow> urls_of (url_cache s) = map fst (url_cache s)"
  by (simp add: urls_of_def build_inv_def sort_key_id_if_sorted)

lemma info_inj: "info t i dobj k = info t i dobj k' \<Longrightarrow> k = k'"
  by (simp add: info_def)

lemma build_inv_empty: "build_inv p \<lparr>index = [], url_cache = [], lru = []\<rparr>"
  by (simp add: build_inv_def)

lemma build_index_traversed:
  assumes "build_index t i tm = Inr (urls, idx)"
  shows "\<exists>ks. urls = first_seen (map (ukey (is_package tm)) (preorder (as_Doc tm)))
           \<and> length ks = length (preorder (as_Doc tm))
           \<and> idx = map (\<lambda>(dobj, k). info t i dobj k) (zip (preorder (as_Doc tm)) ks)
           \<and> (\<forall>j < length (preorder (as_Doc tm)).
                 ks ! j < length urls
                 \<and> rel_url (is_package tm) (module (preorder (as_Doc tm) ! j)) = Inr (urls ! (ks ! j)))"
proof -
  let ?e = "\<lparr>index = [], url_cache = [], lru = []\<rparr>"
  from assms obtain s where
    run: "recursive_add_to_index t i (is_package tm) (as_Doc tm) ?e = Inr s"
    and res: "urls = urls_of (url_cache s)" "idx = index s"
    by (auto simp: build_index_def split: sum.splits)
  from traversal(1)[of "is_package tm" ?e t i "as_Doc tm" s] run build_inv_empty
  have tr: "traversed t i (is_package tm) ?e s (preorder (as_Doc tm))" by simp
  then have inv: "build_inv (is_package tm) s" by (simp add: traversed_def)
  from urls_of_inv[OF inv] res have u: "urls = map fst (url_cache s)" by simp
  from tr obtain ks where
    ks: "map fst (url_cache s) = seen_from [] (map (ukey (is_package tm)) (preorder (as_Doc tm)))"
        "length ks = length (preorder (as_Doc tm))"
        "index s = map (\<lambda>(dobj, k). info t i dobj k) (zip (preorder (as_Doc tm)) ks)"
        "\<forall>j < length (preorder (as_Doc tm)).
            ks ! j < length (url_cache s)
            \<and> rel_url (is_package tm) (module (preorder (as_Doc tm) ! j))
                = Inr (map fst (url_cache s) ! (ks ! j))"
    unfolding traversed_def by auto
  have l: "length urls = length (url_cache s)" using u by simp
  show ?thesis
    using ks unfolding res(2) l u[symmetric]
    by (intro exI[of _ ks]) (simp add: u first_seen_eq)
qed

text \<open>
  C6 (interning). For a build that returns \<open>urls\<close> and \<open>index\<close>: \<open>urls\<close> lists the
  URLs of the modules of the documentation objects, each once, in the order in which the
  pre-order traversal first meets them, so the id of a URL is its position, from 0 and
  without gaps; the record of every object carries an id \<open>k\<close> at which \<open>urls\<close> holds
  the URL of the object's module; every position of \<open>urls\<close> is the id of some record;
  and two objects of the same module get the same id.
\<close>

theorem build_index_interning:
  "build_index t i tm = Inr (urls, idx) \<longrightarrow>
     (let ds = preorder (as_Doc tm); p = is_package tm in
        urls = first_seen (map (ukey p) ds)
        \<and> distinct urls
        \<and> length idx = length ds
        \<and> (\<forall>j < length ds. \<exists>k < length urls.
              idx ! j = info t i (ds ! j) k \<and> rel_url p (module (ds ! j)) = Inr (urls ! k))
        \<and> (\<forall>k < length urls. \<exists>j < length ds. idx ! j = info t i (ds ! j) k)
        \<and> (\<forall>j j' k k'.
              j < length ds \<and> j' < length ds \<and> module (ds ! j) = module (ds ! j')
                \<and> idx ! j = info t i (ds ! j) k \<and> idx ! j' = info t i (ds ! j') k' \<longrightarrow> k = k'))"
proof (intro impI)
  assume run: "build_index t i tm = Inr (urls, idx)"
  define ds where "ds = preorder (as_Doc tm)"
  define p where "p = is_package tm"
  from build_index_traversed[OF run] obtain ks where
    ks: "urls = first_seen (map (ukey p) ds)" "length ks = length ds"
        "idx = map (\<lambda>(dobj, k). info t i dobj k) (zip ds ks)"
        "\<forall>j < length ds. ks ! j < length urls \<and> rel_url p (module (ds ! j)) = Inr (urls ! (ks ! j))"
    unfolding ds_def p_def by blast
  have dist: "distinct urls" unfolding ks(1) by (rule distinct_first_seen)
  have len: "length idx = length ds" using ks(2,3) by simp
  have at: "idx ! j = info t i (ds ! j) (ks ! j)" if "j < length ds" for j
    using that ks(2,3) by simp
  have key: "ukey p (ds ! j) = urls ! (ks ! j)" if "j < length ds" for j
    using that ks(4) by (simp add: ukey_def)
  have c4: "\<forall>j < length ds. \<exists>k < length urls.
              idx ! j = info t i (ds ! j) k \<and> rel_url p (module (ds ! j)) = Inr (urls ! k)"
    using at ks(4) by blast
  have c5: "\<forall>k < length urls. \<exists>j < length ds. idx ! j = info t i (ds ! j) k"
  proof (intro allI impI)
    fix k assume k: "k < length urls"
    then have "urls ! k \<in> set (map (ukey p) ds)"
      using set_first_seen[of "map (ukey p) ds"] ks(1) nth_mem[OF k] by simp
    then obtain j where j: "j < length ds" "ukey p (ds ! j) = urls ! k"
      by (auto simp: in_set_conv_nth)
    from key[OF j(1)] j(2) have "urls ! (ks ! j) = urls ! k" by simp
    moreover from ks(4) j(1) have "ks ! j < length urls" by simp
    ultimately have "ks ! j = k" using dist k by (simp add: nth_eq_iff_index_eq)
    with at[OF j(1)] j(1) show "\<exists>j < length ds. idx ! j = info t i (ds ! j) k" by auto
  qed
  have c6: "\<forall>j j' k k'.
              j < length ds \<and> j' < length ds \<and> module (ds ! j) = module (ds ! j')
                \<and> idx ! j = info t i (ds ! j) k \<and> idx ! j' = info t i (ds ! j') k' \<longrightarrow> k = k'"
  proof (intro allI impI, elim conjE)
    fix j j' k k'
    assume h: "j < length ds" "j' < length ds" "module (ds ! j) = module (ds ! j')"
      "idx ! j = info t i (ds ! j) k" "idx ! j' = info t i (ds ! j') k'"
    from h(4) at[OF h(1)] have k: "k = ks ! j" by (auto dest: info_inj)
    from h(5) at[OF h(2)] have k': "k' = ks ! j'" by (auto dest: info_inj)
    from ks(4) h(1) have "rel_url p (module (ds ! j)) = Inr (urls ! (ks ! j))" by simp
    moreover from ks(4) h(2) have "rel_url p (module (ds ! j')) = Inr (urls ! (ks ! j'))" by simp
    ultimately have "urls ! (ks ! j) = urls ! (ks ! j')" using h(3) by simp
    moreover from ks(4) h(1,2) have "ks ! j < length urls" "ks ! j' < length urls" by simp_all
    ultimately have "ks ! j = ks ! j'" using dist by (simp add: nth_eq_iff_index_eq)
    with k k' show "k = k'" by simp
  qed
  show "let ds = preorder (as_Doc tm); p = is_package tm in
        urls = first_seen (map (ukey p) ds)
        \<and> distinct urls
        \<and> length idx = length ds
        \<and> (\<forall>j < length ds. \<exists>k < length urls.
              idx ! j = info t i (ds ! j) k \<and> rel_url p (module (ds ! j)) = Inr (urls ! k))
        \<and> (\<forall>k < length urls. \<exists>j < length ds. idx ! j = info t i (ds ! j) k)
        \<and> (\<forall>j j' k k'.
              j < length ds \<and> j' < length ds \<and> module (ds ! j) = module (ds ! j')
                \<and> idx ! j = info t i (ds ! j) k \<and> idx ! j' = info t i (ds ! j') k' \<longrightarrow> k = k')"
    unfolding Let_def ds_def[symmetric] p_def[symmetric]
    using ks(1) dist len c4 c5 c6 by blast
qed

lemma split_once_demo:
  "split_once ''pkg/index.html'' = [''pkg'', ''index.html'']"
  "split_once ''pkg/sub.html'' = [''pkg'', ''sub.html'']"
  by simp_all

lemma rel_url_demo:
  "rel_url True pkg_ref = Inr ''index.html''" "rel_url True sub_ref = Inr ''sub.html''"
  by (simp_all add: rel_url_def pkg_ref_def sub_ref_def)

lemma ref_neq: "pkg_ref \<noteq> sub_ref" "sub_ref \<noteq> pkg_ref"
  by (simp_all add: pkg_ref_def sub_ref_def)

lemma build_demo:
  "build_index (\<lambda>s. s) True demo_pkg = Inr ([''index.html'', ''sub.html''], demo_index)"
  unfolding build_index_def demo_pkg_def
  by (simp add: pkg_doc_def sub_doc_def to_url_id_def to_url_id_body_def rel_url_demo ref_neq
        lru_maxsize_def urls_of_def demo_index_def)

theorem build_index_interning_witness:
  "build_index (\<lambda>s. s) True demo_pkg = Inr ([''index.html'', ''sub.html''], demo_index)
   \<and> [''index.html'', ''sub.html''] = first_seen (map (ukey True) (preorder (as_Doc demo_pkg)))
   \<and> length demo_index = length (preorder (as_Doc demo_pkg))"
  using build_index_interning[of "\<lambda>s. s" True demo_pkg "[''index.html'', ''sub.html'']" demo_index]
    build_demo
  by (simp add: Let_def demo_pkg_def)

subsection \<open>The serialisation\<close>

lemma filter_str_join:
  "filter P (str_join sep xs) = str_join (filter P sep) (map (filter P) xs)"
  by (induction sep xs rule: str_join.induct) simp_all

lemma digit_char_no_newline: "d < 16 \<Longrightarrow> digit_char d \<noteq> CHR 0x0A"
proof -
  assume "d < 16"
  then have "digit_char d \<in> set ''0123456789abcdef''"
    unfolding digit_char_def by (intro nth_mem) simp
  then show ?thesis by auto
qed

lemma escape_char_no_newline: "CHR 0x0A \<notin> set (escape_char c)"
proof -
  have lt: "(of_char c :: nat) < 16 * 16" by (cases c) simp
  from less_mult_imp_div_less[OF lt] have a: "(of_char c :: nat) div 16 < 16" .
  have b: "(of_char c :: nat) mod 16 < 16" by simp
  have n: "\<not> (0x20 \<le> (of_char (CHR 0x0A) :: nat))" by simp
  note d = digit_char_no_newline[OF a] digit_char_no_newline[OF b]
  show ?thesis
  proof (cases "c = CHR 0x0A")
    case True
    then show ?thesis unfolding escape_char_def Let_def by simp
  next
    case False
    with d show ?thesis unfolding escape_char_def Let_def by (simp add: eq_commute[of "CHR 0x0A"])
  qed
qed

lemma encode_str_no_newline: "filter (\<lambda>c. c \<noteq> CHR 0x0A) (encode_str s) = encode_str s"
  unfolding encode_str_def using escape_char_no_newline
  by (auto simp: filter_id_conv)

lemma str_nat_no_newline: "CHR 0x0A \<notin> set (str_nat n)"
proof (induction n rule: str_nat.induct)
  case (1 n)
  have m: "digit_char (n mod 10) \<noteq> CHR 0x0A" by (rule digit_char_no_newline) simp
  show ?case
  proof (cases "n < 10")
    case True
    then have "digit_char n \<noteq> CHR 0x0A" by (intro digit_char_no_newline) simp
    with True show ?thesis by (subst str_nat.simps) auto
  next
    case False
    with 1 m show ?thesis by (subst str_nat.simps) auto
  qed
qed

lemma str_int_no_newline: "filter (\<lambda>c. c \<noteq> CHR 0x0A) (str_int i) = str_int i"
  unfolding str_int_def using str_nat_no_newline by (auto simp: filter_id_conv)

lemma json_dump_compact: "filter (\<lambda>c. c \<noteq> CHR 0x0A) (json_dump v) = json_compact v"
proof (induction v)
  case (JStr s)
  show ?case by (simp add: encode_str_no_newline)
next
  case (JInt i)
  show ?case by (simp add: str_int_no_newline)
next
  case (JArr xs)
  then have "map (filter (\<lambda>c. c \<noteq> CHR 0x0A)) (map json_dump xs) = map json_compact xs"
    by simp
  then show ?case by (cases xs) (simp_all add: filter_str_join del: map_map)
next
  case (JObj kvs)
  have "kv \<in> set kvs \<Longrightarrow> filter (\<lambda>c. c \<noteq> CHR 0x0A) (json_dump (snd kv)) = json_compact (snd kv)" for kv
    using JObj by (cases kv) auto
  then have "map (filter (\<lambda>c. c \<noteq> CHR 0x0A))
               (map (\<lambda>kv. encode_str (fst kv) @ '':'' @ json_dump (snd kv)) kvs)
             = map (\<lambda>kv. encode_str (fst kv) @ '':'' @ json_compact (snd kv)) kvs"
    by (simp add: encode_str_no_newline)
  then show ?case by (cases kvs) (simp_all add: filter_str_join del: map_map)
qed

section \<open>The output writer: properties\<close>

lemma unlink_quietly_no_file: "files (unlink_quietly filename w) filename \<noteq> Some (File c)"
  by (auto simp: unlink_quietly_def unlink_def split: option.splits node.splits)

lemma unlink_quietly_elsewhere: "p \<noteq> filename \<Longrightarrow> files (unlink_quietly filename w) p = files w p"
  by (auto simp: unlink_quietly_def unlink_def split: option.splits node.splits)

text \<open>
  C5 (the output-file helper). Whatever the body of the \<open>with\<close> block does: when the
  helper raises an \<open>Exception\<close>, no regular file is left at the target path; an
  exception of the body is the one raised again, nothing is printed and no other path is
  touched by the clean-up; and when the helper returns, the file is as the body left it
  and the path, followed by a newline, has been printed on standard output.
\<close>

theorem open_write_file_rollback:
  "open_write_file filename body w = (res, w') \<longrightarrow>
     (\<forall>e. res = Some e \<and> is_Exception e \<longrightarrow> (\<forall>c. files w' filename \<noteq> Some (File c))) \<and>
     (\<forall>fs e w1. open_w (files w) filename = Inr fs \<and> body (w\<lparr>files := fs\<rparr>) = (Some e, w1) \<longrightarrow>
        res = Some e \<and> stdout w' = stdout w1
          \<and> (\<forall>p. p \<noteq> filename \<longrightarrow> files w' p = files w1 p)) \<and>
     (res = None \<longrightarrow>
        (\<exists>fs w1. open_w (files w) filename = Inr fs \<and> body (w\<lparr>files := fs\<rparr>) = (None, w1)
           \<and> files w' = files w1 \<and> stdout w' = stdout w1 @ filename @ [CHR 0x0A]))"
proof (intro impI conjI allI)
  assume r: "open_write_file filename body w = (res, w')"
  { fix e c
    assume e: "res = Some e \<and> is_Exception e"
    show "files w' filename \<noteq> Some (File c)"
    proof (cases "open_w (files w) filename")
      case (Inl e')
      with r e show ?thesis
        by (auto simp: open_write_file_def unlink_quietly_no_file)
    next
      case (Inr fs)
      with r e show ?thesis
        by (cases "body (w\<lparr>files := fs\<rparr>)")
           (auto simp: open_write_file_def unlink_quietly_no_file print_def split: option.splits)
    qed }
  { fix fs e w1
    assume h: "open_w (files w) filename = Inr fs \<and> body (w\<lparr>files := fs\<rparr>) = (Some e, w1)"
    with r show "res = Some e" by (auto simp: open_write_file_def)
    from r h show "stdout w' = stdout w1"
      by (auto simp: open_write_file_def unlink_quietly_def split: sum.splits if_splits)
    { fix p assume "p \<noteq> filename"
      with r h show "files w' p = files w1 p"
        by (auto simp: open_write_file_def unlink_quietly_elsewhere split: if_splits) } }
  { assume n: "res = None"
    show "\<exists>fs w1. open_w (files w) filename = Inr fs \<and> body (w\<lparr>files := fs\<rparr>) = (None, w1)
           \<and> files w' = files w1 \<and> stdout w' = stdout w1 @ filename @ [CHR 0x0A]"
    proof (cases "open_w (files w) filename")
      case (Inl e')
      with r n show ?thesis by (simp add: open_write_file_def)
    next
      case (Inr fs)
      with r n show ?thesis
        by (cases "body (w\<lparr>files := fs\<rparr>)")
           (auto simp: open_write_file_def print_def split: option.splits)
    qed }
qed


lemma dirname_demo:
  "dirname ''html/a.html'' = ''html''" "dirname ''html/b.html'' = ''html''"
  by (simp_all add: dirname_def path_split_def rstrip_def Let_def)

theorem open_write_file_rollback_witness:
  "fst (open_write_file ''html/a.html'' (f_write faulty_host ''html/a.html'' ''<html>'') fresh_world)
     = Some (OSError ''disk full'')
   \<and> (\<forall>c. files (snd (open_write_file ''html/a.html''
                 (f_write faulty_host ''html/a.html'' ''<html>'') fresh_world)) ''html/a.html''
            \<noteq> Some (File c))
   \<and> fst (open_write_file ''html/a.html'' (f_write plain_host ''html/a.html'' ''<html>'') fresh_world)
     = None
   \<and> stdout (snd (open_write_file ''html/a.html''
                 (f_write plain_host ''html/a.html'' ''<html>'') fresh_world))
     = ''html/a.html'' @ [CHR 0x0A]"
proof -
  let ?fs = "(files fresh_world)(''html/a.html'' \<mapsto> File [])"
  have op: "open_w (files fresh_world) ''html/a.html'' = Inr ?fs"
    by (simp add: open_w_def dirname_demo fresh_world_def)
  have bad: "f_write faulty_host ''html/a.html'' ''<html>'' (fresh_world\<lparr>files := ?fs\<rparr>)
      = (Some (OSError ''disk full''),
         fresh_world\<lparr>files := ?fs(''html/a.html'' \<mapsto> File ''<ht'')\<rparr>)"
    by (simp add: f_write_def faulty_host_def)
  have good: "f_write plain_host ''html/a.html'' ''<html>'' (fresh_world\<lparr>files := ?fs\<rparr>)
      = (None, fresh_world\<lparr>files := ?fs(''html/a.html'' \<mapsto> File ''<html>'')\<rparr>)"
    by (simp add: f_write_def plain_host_def)
  let ?R = "open_write_file ''html/a.html'' (f_write faulty_host ''html/a.html'' ''<html>'') fresh_world"
  let ?G = "open_write_file ''html/a.html'' (f_write plain_host ''html/a.html'' ''<html>'') fresh_world"
  have R: "?R = (fst ?R, snd ?R)" and G: "?G = (fst ?G, snd ?G)" by simp_all
  note tR = open_write_file_rollback[of "''html/a.html''"
        "f_write faulty_host ''html/a.html'' ''<html>''" fresh_world "fst ?R" "snd ?R",
        THEN mp, OF R]
  note tG = open_write_file_rollback[of "''html/a.html''"
        "f_write plain_host ''html/a.html'' ''<html>''" fresh_world "fst ?G" "snd ?G",
        THEN mp, OF G]
  have r: "fst ?R = Some (OSError ''disk full'')"
    using tR op bad by blast
  have nf: "\<forall>c. files (snd ?R) ''html/a.html'' \<noteq> Some (File c)"
    using tR r by simp
  have g: "fst ?G = None"
    by (simp add: open_write_file_def op good)
  have out: "stdout (snd ?G) = ''html/a.html'' @ [CHR 0x0A]"
    using tG g op good by (auto simp: fresh_world_def)
  from r nf g out show ?thesis by blast
qed


lemma demo_args_sel:
  "force demo_args = False" "html demo_args = True" "output_dir demo_args = ''html''"
  by (simp_all add: demo_args_def)

lemma plain_host_sel:
  "lunr_search plain_host = None" "write_fault plain_host f d = None"
  by (simp_all add: plain_host_def)

lemma second_run_files:
  "files second_run_world ''html'' = Some Dir"
  "files second_run_world ''html/a.html'' = None"
  "files second_run_world ''html/b.html'' = Some (File ''<b>'')"
  by (simp_all add: second_run_world_def)

lemma write_modules_append:
  "write_modules A H l pre w = (None, w1) \<Longrightarrow>
   write_modules A H l (pre @ ms) w = write_modules A H l ms w1"
  by (induction pre arbitrary: w) (auto split: prod.splits option.splits)

lemma quit_on_paths_hit:
  "\<exists>p \<in> set ps. files w p \<noteq> None \<Longrightarrow>
   \<exists>p \<in> set ps. files w p \<noteq> None \<and>
     quit_on_paths ps w =
       (Some (SystemExit 1),
        eprint (''File '' @ [CHR 0x27] @ p @ [CHR 0x27]
                  @ '' already exists. Delete it, or run with --force'') w)"
  by (induction ps) auto

lemma module_path_demo:
  "module_path demo_args mod_a ''.html'' = ''html/a.html''"
  "module_path demo_args mod_b ''.html'' = ''html/b.html''"
  by (simp_all add: module_path_def demo_args_def mod_a_def mod_b_def sub_html_suffix_def
        endswith_def startswith_def)

lemma write_a:
  "write_module demo_args plain_host mod_b mod_a second_run_world =
     (None, second_run_world
        \<lparr>files := (files second_run_world)(''html/a.html'' \<mapsto> File ''<a>''),
         stdout := stdout second_run_world @ ''html/a.html'' @ [CHR 0x0A]\<rparr>)"
proof -
  have mk: "is_package mod_a = False" "m_html mod_a = Inr ''<a>''" "submodules mod_a = []"
    by (simp_all add: mod_a_def)
  have q: "quit_if_exists demo_args mod_a ''.html'' second_run_world = (None, second_run_world)"
    by (simp add: quit_if_exists_def module_path_demo demo_args_sel second_run_files mk)
  have op: "open_write_file ''html/a.html''
              (write_rendered plain_host mod_a ''.html'' ''html/a.html'') second_run_world =
     (None, second_run_world
        \<lparr>files := (files second_run_world)(''html/a.html'' \<mapsto> File ''<a>''),
         stdout := stdout second_run_world @ ''html/a.html'' @ [CHR 0x0A]\<rparr>)"
    by (simp add: open_write_file_def open_w_def dirname_demo second_run_files
          write_rendered_def mk f_write_def plain_host_sel print_def)
  have w: "recursive_write_files demo_args plain_host mod_a ''.html'' second_run_world =
     (None, second_run_world
        \<lparr>files := (files second_run_world)(''html/a.html'' \<mapsto> File ''<a>''),
         stdout := stdout second_run_world @ ''html/a.html'' @ [CHR 0x0A]\<rparr>)"
    using module_path_demo(1) op
    by (simp add: mod_a_def dirname_demo second_run_files)
  show ?thesis
    by (simp add: write_module_def q w demo_args_sel plain_host_sel)
qed

text \<open>
  C4 as stated (the existence check runs before any write of the whole run) fails: with
  the modules \<open>a\<close> and \<open>b\<close> and the output of an earlier run for \<open>b\<close> only, the run
  exits with status 1 on \<open>b\<close>, after \<open>html/a.html\<close> has been written.
\<close>

theorem preflight_counterexample:
  "fst (run_modules demo_args plain_host [mod_a, mod_b] second_run_world) = 1
   \<and> files second_run_world ''html/a.html'' = None
   \<and> files (snd (run_modules demo_args plain_host [mod_a, mod_b] second_run_world)) ''html/a.html''
       = Some (File ''<a>'')"
proof -
  let ?w1 = "second_run_world
        \<lparr>files := (files second_run_world)(''html/a.html'' \<mapsto> File ''<a>''),
         stdout := stdout second_run_world @ ''html/a.html'' @ [CHR 0x0A]\<rparr>"
  let ?msg = "''File '' @ [CHR 0x27] @ ''html/b.html'' @ [CHR 0x27]
                @ '' already exists. Delete it, or run with --force''"
  have q: "quit_if_exists demo_args mod_b ''.html'' ?w1 = (Some (SystemExit 1), eprint ?msg ?w1)"
    by (simp add: quit_if_exists_def module_path_demo demo_args_sel second_run_files)
  have b: "write_module demo_args plain_host mod_b mod_b ?w1 = (Some (SystemExit 1), eprint ?msg ?w1)"
    unfolding write_module_def q by (simp add: demo_args_sel)
  have "write_modules demo_args plain_host mod_b [mod_a, mod_b] second_run_world
          = (Some (SystemExit 1), eprint ?msg ?w1)"
    by (simp only: write_modules.simps write_a b prod.case option.case)
  then have "run_modules demo_args plain_host [mod_a, mod_b] second_run_world = (1, eprint ?msg ?w1)"
    by (simp add: run_modules_def)
  then show ?thesis by (simp add: eprint_def second_run_files)
qed


lemma quit_if_exists_hit:
  assumes "\<not> force A"
    and "files w (module_path A m ext) \<noteq> None
           \<or> is_package m \<and> files w (dirname (module_path A m ext)) \<noteq> None"
  shows "\<exists>p. (p = module_path A m ext \<or> is_package m \<and> p = dirname (module_path A m ext))
           \<and> files w p \<noteq> None
           \<and> quit_if_exists A m ext w =
               (Some (SystemExit 1),
                eprint (''File '' @ [CHR 0x27] @ p @ [CHR 0x27]
                          @ '' already exists. Delete it, or run with --force'') w)"
proof -
  let ?ps = "[module_path A m ext] @ (if is_package m then [dirname (module_path A m ext)] else [])"
  from assms(2) have "\<exists>p \<in> set ?ps. files w p \<noteq> None" by auto
  from quit_on_paths_hit[OF this] obtain p where
    p: "p \<in> set ?ps" "files w p \<noteq> None"
       "quit_on_paths ?ps w = (Some (SystemExit 1),
                eprint (''File '' @ [CHR 0x27] @ p @ [CHR 0x27]
                          @ '' already exists. Delete it, or run with --force'') w)"
    by blast
  from p(1) have "p = module_path A m ext \<or> is_package m \<and> p = dirname (module_path A m ext)"
    by (auto split: if_splits)
  with p(2,3) assms(1) show ?thesis
    unfolding quit_if_exists_def by auto
qed

text \<open>
  C4, amended. Without \<open>--force\<close>, in either file-writing mode, the check of a unit
  runs when the loop reaches that unit: if, after the units before it have been written,
  its target file exists (or, for a package, the directory of that file), the run exits
  with status 1, the diagnostic names the path found, and neither the files nor standard
  output change from that point: no file of this unit or of a later one is written and
  every existing file keeps its content.
\<close>

theorem quit_if_exists_aborts_at_unit:
  "\<not> force A \<and> (html A \<or> output_dir A \<noteq> [])
     \<and> ext = (if html A then ''.html'' else ''.md'')
     \<and> write_modules A H (last (pre @ m # rest)) pre w = (None, w1)
     \<and> (files w1 (module_path A m ext) \<noteq> None
          \<or> is_package m \<and> files w1 (dirname (module_path A m ext)) \<noteq> None) \<longrightarrow>
   fst (run_modules A H (pre @ m # rest) w) = 1
     \<and> files (snd (run_modules A H (pre @ m # rest) w)) = files w1
     \<and> stdout (snd (run_modules A H (pre @ m # rest) w)) = stdout w1
     \<and> (\<exists>p. (p = module_path A m ext \<or> is_package m \<and> p = dirname (module_path A m ext))
            \<and> files w1 p \<noteq> None
            \<and> stderr (snd (run_modules A H (pre @ m # rest) w)) =
                stderr w1 @ ''File '' @ [CHR 0x27] @ p @ [CHR 0x27]
                  @ '' already exists. Delete it, or run with --force'' @ [CHR 0x0A])"
proof (intro impI, elim conjE)
  assume nf: "\<not> force A" and mode: "html A \<or> output_dir A \<noteq> []"
    and ext: "ext = (if html A then ''.html'' else ''.md'')"
    and pre: "write_modules A H (last (pre @ m # rest)) pre w = (None, w1)"
    and ex: "files w1 (module_path A m ext) \<noteq> None
          \<or> is_package m \<and> files w1 (dirname (module_path A m ext)) \<noteq> None"
  from quit_if_exists_hit[OF nf ex] obtain p where
    p: "p = module_path A m ext \<or> is_package m \<and> p = dirname (module_path A m ext)"
       "files w1 p \<noteq> None"
       "quit_if_exists A m ext w1 =
               (Some (SystemExit 1),
                eprint (''File '' @ [CHR 0x27] @ p @ [CHR 0x27]
                          @ '' already exists. Delete it, or run with --force'') w1)"
    by blast
  let ?w2 = "eprint (''File '' @ [CHR 0x27] @ p @ [CHR 0x27]
                          @ '' already exists. Delete it, or run with --force'') w1"
  have wm: "write_module A H (last (pre @ m # rest)) m w1 = (Some (SystemExit 1), ?w2)"
    using mode ext p(3) by (auto simp: write_module_def)
  have "write_modules A H (last (pre @ m # rest)) (pre @ m # rest) w = (Some (SystemExit 1), ?w2)"
    using write_modules_append[OF pre, of "m # rest"] wm by simp
  then have run: "run_modules A H (pre @ m # rest) w = (1, ?w2)"
    by (simp add: run_modules_def)
  show "fst (run_modules A H (pre @ m # rest) w) = 1
     \<and> files (snd (run_modules A H (pre @ m # rest) w)) = files w1
     \<and> stdout (snd (run_modules A H (pre @ m # rest) w)) = stdout w1
     \<and> (\<exists>p. (p = module_path A m ext \<or> is_package m \<and> p = dirname (module_path A m ext))
            \<and> files w1 p \<noteq> None
            \<and> stderr (snd (run_modules A H (pre @ m # rest) w)) =
                stderr w1 @ ''File '' @ [CHR 0x27] @ p @ [CHR 0x27]
                  @ '' already exists. Delete it, or run with --force'' @ [CHR 0x0A])"
    unfolding run using p(1,2) by (auto simp: eprint_def)
qed

theorem quit_if_exists_aborts_at_unit_witness:
  "fst (run_modules demo_args plain_host [mod_a, mod_b] second_run_world) = 1
   \<and> files (snd (run_modules demo_args plain_host [mod_a, mod_b] second_run_world)) ''html/b.html''
       = Some (File ''<b>'')
   \<and> fst (run_modules demo_args plain_host [mod_b] second_run_world) = 1
   \<and> files (snd (run_modules demo_args plain_host [mod_b] second_run_world)) = files second_run_world"
proof -
  let ?w1 = "second_run_world
        \<lparr>files := (files second_run_world)(''html/a.html'' \<mapsto> File ''<a>''),
         stdout := stdout second_run_world @ ''html/a.html'' @ [CHR 0x0A]\<rparr>"
  have pre: "write_modules demo_args plain_host (last ([mod_a] @ mod_b # [])) [mod_a] second_run_world
               = (None, ?w1)"
    by (simp add: write_a)
  have a: "fst (run_modules demo_args plain_host [mod_a, mod_b] second_run_world) = 1
     \<and> files (snd (run_modules demo_args plain_host [mod_a, mod_b] second_run_world)) = files ?w1"
    using quit_if_exists_aborts_at_unit[of demo_args "''.html''" plain_host "[mod_a]" mod_b "[]"
        second_run_world ?w1] pre
    by (simp add: demo_args_sel module_path_demo second_run_files)
  have b: "fst (run_modules demo_args plain_host [mod_b] second_run_world) = 1
     \<and> files (snd (run_modules demo_args plain_host [mod_b] second_run_world)) = files second_run_world"
    using quit_if_exists_aborts_at_unit[of demo_args "''.html''" plain_host "[]" mod_b "[]"
        second_run_world second_run_world]
    by (simp add: demo_args_sel module_path_demo second_run_files)
  from a b show ?thesis by (simp add: second_run_files)
qed

section \<open>Writing the search index: properties\<close>

lemma f_write_ok:
  "f_write H f d w = (None, w1) \<Longrightarrow>
   \<exists>c. files w f = Some (File c) \<and> w1 = w\<lparr>files := (files w)(f \<mapsto> File (c @ d))\<rparr>"
  by (auto simp: f_write_def split: option.splits node.splits)

lemma f_write_frame:
  "f_write H f d w = (r, w1) \<Longrightarrow> p \<noteq> f \<Longrightarrow> files w1 p = files w p"
  by (auto simp: f_write_def split: option.splits node.splits)

lemma open_write_file_ok:
  "open_write_file f wbody w = (None, w') \<Longrightarrow>
   \<exists>fs w1. open_w (files w) f = Inr fs \<and> wbody (w\<lparr>files := fs\<rparr>) = (None, w1) \<and> w' = print f w1"
  by (auto simp: open_write_file_def split: sum.splits prod.splits option.splits)

lemma open_w_ok:
  "open_w fs f = Inr fs' \<Longrightarrow> fs' = fs(f \<mapsto> File [])"
  by (auto simp: open_w_def split: if_splits)

lemma write_index_js_ok:
  assumes "files w f = Some (File [])" and "write_index_js H f urls idx w = (None, w1)"
  shows "files w1 f = Some (File (index_js urls idx))"
proof -
  from assms(2) obtain wa wb wc where
    a: "f_write H f ''URLS='' w = (None, wa)"
    and b: "f_write H f (json_dump (JArr (map JStr urls))) wa = (None, wb)"
    and c: "f_write H f ('';'' @ [CHR 0x0A] @ ''INDEX='') wb = (None, wc)"
    and d: "f_write H f (json_dump (JArr idx)) wc = (None, w1)"
    by (auto simp: write_index_js_def split: prod.splits option.splits)
  from f_write_ok[OF a] assms(1) have 1: "files wa f = Some (File ''URLS='')" by auto
  from f_write_ok[OF b] 1
  have 2: "files wb f = Some (File (''URLS='' @ json_dump (JArr (map JStr urls))))" by auto
  from f_write_ok[OF c] 2
  have 3: "files wc f = Some (File ((''URLS='' @ json_dump (JArr (map JStr urls)))
                                      @ '';'' @ [CHR 0x0A] @ ''INDEX=''))" by auto
  from f_write_ok[OF d] 3 show ?thesis by (auto simp: index_js_def)
qed

lemma join_index_search: "join P [''index.js''] \<noteq> join P [''search.html'']"
  by (simp add: startswith_def)

lemma search_frame:
  assumes "open_write_file f (write_search_html H f tm) w = (None, w')" and "p \<noteq> f"
  shows "files w' p = files w p"
proof -
  from open_write_file_ok[OF assms(1)] obtain fs w1 where
    o: "open_w (files w) f = Inr fs"
    and b: "write_search_html H f tm (w\<lparr>files := fs\<rparr>) = (None, w1)"
    and w': "w' = print f w1" by blast
  from b obtain s where "f_write H f s (w\<lparr>files := fs\<rparr>) = (None, w1)"
    by (auto simp: write_search_html_def split: sum.splits)
  from f_write_frame[OF this assms(2)] open_w_ok[OF o] assms(2) w'
  show ?thesis by (simp add: print_def)
qed

lemma generate_lunr_search_index_js:
  assumes "generate_lunr_search A H tm i w = (None, w')"
  shows "\<exists>urls idx. build_index (trim_docstring H) i tm = Inr (urls, idx)
           \<and> files w' (join (join (output_dir A)
                             (if is_package tm then split_on (CHR ''.'') (name tm) else []))
                          [''index.js''])
               = Some (File (index_js urls idx))"
proof -
  let ?P = "join (output_dir A) (if is_package tm then split_on (CHR ''.'') (name tm) else [])"
  from assms obtain urls idx w1 where
    bi: "build_index (trim_docstring H) i tm = Inr (urls, idx)"
    and first: "open_write_file (join ?P [''index.js''])
                  (write_index_js H (join ?P [''index.js'']) urls idx) w = (None, w1)"
    and second: "open_write_file (join ?P [''search.html''])
                  (write_search_html H (join ?P [''search.html'']) tm) w1 = (None, w')"
    by (auto simp: generate_lunr_search_def Let_def split: sum.splits prod.splits option.splits)
  from open_write_file_ok[OF first] obtain fs wb where
    o: "open_w (files w) (join ?P [''index.js'']) = Inr fs"
    and b: "write_index_js H (join ?P [''index.js'']) urls idx (w\<lparr>files := fs\<rparr>) = (None, wb)"
    and w1: "w1 = print (join ?P [''index.js'']) wb" by blast
  from open_w_ok[OF o] have "files (w\<lparr>files := fs\<rparr>) (join ?P [''index.js'']) = Some (File [])"
    by simp
  from write_index_js_ok[OF this b] w1
  have "files w1 (join ?P [''index.js'']) = Some (File (index_js urls idx))"
    by (simp add: print_def)
  with search_frame[OF second join_index_search] bi show ?thesis by auto
qed

text \<open>
  C7 (the format of \<open>index.js\<close>). When the index has been generated, the file
  \<open>index.js\<close> in the folder of the top module holds exactly \<open>URLS=\<close>, the array of
  the URL strings, a semicolon and a line break, \<open>INDEX=\<close> and the array of the
  records, both arrays as \<open>json.dump\<close> writes them with \<open>indent=0\<close> and the
  separators \<open>,\<close> and \<open>:\<close>. Without its line breaks the content is the most compact
  serialisation: the encoder adds line breaks and nothing else, so no line is indented.
  There is one record per documentation object, in pre-order, with the keys \<open>ref\<close>
  (a string) and \<open>url\<close> (an id into the URL array), then \<open>doc\<close> (a string) exactly
  when docstrings are indexed, then \<open>func\<close> with the value 1 exactly when the object is
  a function.
\<close>

theorem index_js_format:
  "generate_lunr_search A H tm i w = (None, w') \<longrightarrow>
     (\<exists>urls idx.
        build_index (trim_docstring H) i tm = Inr (urls, idx)
        \<and> files w' (join (join (output_dir A)
                          (if is_package tm then split_on (CHR ''.'') (name tm) else []))
                       [''index.js''])
            = Some (File (''URLS='' @ json_dump (JArr (map JStr urls)) @ '';'' @ [CHR 0x0A]
                            @ ''INDEX='' @ json_dump (JArr idx)))
        \<and> filter (\<lambda>c. c \<noteq> CHR 0x0A)
              (''URLS='' @ json_dump (JArr (map JStr urls)) @ '';'' @ [CHR 0x0A]
                 @ ''INDEX='' @ json_dump (JArr idx))
            = ''URLS='' @ json_compact (JArr (map JStr urls)) @ '';INDEX=''
                @ json_compact (JArr idx)
        \<and> length idx = length (preorder (as_Doc tm))
        \<and> (\<forall>j < length (preorder (as_Doc tm)). \<exists>k < length urls.
              idx ! j =
                JObj ([(''ref'', JStr (refname (preorder (as_Doc tm) ! j))), (''url'', JInt (int k))]
                      @ (if i then [(''doc'', JStr (trim_docstring H
                                                     (docstring (preorder (as_Doc tm) ! j))))]
                         else [])
                      @ (if is_Function (preorder (as_Doc tm) ! j) then [(''func'', JInt 1)]
                         else []))))"
proof (intro impI)
  assume run: "generate_lunr_search A H tm i w = (None, w')"
  from generate_lunr_search_index_js[OF run] obtain urls idx where
    bi: "build_index (trim_docstring H) i tm = Inr (urls, idx)"
    and fl: "files w' (join (join (output_dir A)
                          (if is_package tm then split_on (CHR ''.'') (name tm) else []))
                       [''index.js'']) = Some (File (index_js urls idx))"
    by blast
  from build_index_traversed[OF bi] obtain ks where
    ks: "length ks = length (preorder (as_Doc tm))"
        "idx = map (\<lambda>(dobj, k). info (trim_docstring H) i dobj k) (zip (preorder (as_Doc tm)) ks)"
        "\<forall>j < length (preorder (as_Doc tm)). ks ! j < length urls"
    by blast
  have len: "length idx = length (preorder (as_Doc tm))" using ks(1,2) by simp
  have recs: "\<forall>j < length (preorder (as_Doc tm)). \<exists>k < length urls.
              idx ! j =
                JObj ([(''ref'', JStr (refname (preorder (as_Doc tm) ! j))), (''url'', JInt (int k))]
                      @ (if i then [(''doc'', JStr (trim_docstring H
                                                     (docstring (preorder (as_Doc tm) ! j))))]
                         else [])
                      @ (if is_Function (preorder (as_Doc tm) ! j) then [(''func'', JInt 1)]
                         else []))"
  proof (intro allI impI)
    fix j assume j: "j < length (preorder (as_Doc tm))"
    with ks(1,2) have "idx ! j = info (trim_docstring H) i (preorder (as_Doc tm) ! j) (ks ! j)"
      by simp
    with ks(3) j show "\<exists>k < length urls.
              idx ! j =
                JObj ([(''ref'', JStr (refname (preorder (as_Doc tm) ! j))), (''url'', JInt (int k))]
                      @ (if i then [(''doc'', JStr (trim_docstring H
                                                     (docstring (preorder (as_Doc tm) ! j))))]
                         else [])
                      @ (if is_Function (preorder (as_Doc tm) ! j) then [(''func'', JInt 1)]
                         else []))"
      unfolding info_def by blast
  qed
  have compact: "filter (\<lambda>c. c \<noteq> CHR 0x0A)
              (''URLS='' @ json_dump (JArr (map JStr urls)) @ '';'' @ [CHR 0x0A]
                 @ ''INDEX='' @ json_dump (JArr idx))
            = ''URLS='' @ json_compact (JArr (map JStr urls)) @ '';INDEX=''
                @ json_compact (JArr idx)"
    by (simp only: filter_append json_dump_compact) simp
  from bi fl len recs compact show "\<exists>urls idx.
        build_index (trim_docstring H) i tm = Inr (urls, idx)
        \<and> files w' (join (join (output_dir A)
                          (if is_package tm then split_on (CHR ''.'') (name tm) else []))
                       [''index.js''])
            = Some (File (''URLS='' @ json_dump (JArr (map JStr urls)) @ '';'' @ [CHR 0x0A]
                            @ ''INDEX='' @ json_dump (JArr idx)))
        \<and> filter (\<lambda>c. c \<noteq> CHR 0x0A)
              (''URLS='' @ json_dump (JArr (map JStr urls)) @ '';'' @ [CHR 0x0A]
                 @ ''INDEX='' @ json_dump (JArr idx))
            = ''URLS='' @ json_compact (JArr (map JStr urls)) @ '';INDEX=''
                @ json_compact (JArr idx)
        \<and> length idx = length (preorder (as_Doc tm))
        \<and> (\<forall>j < length (preorder (as_Doc tm)). \<exists>k < length urls.
              idx ! j =
                JObj ([(''ref'', JStr (refname (preorder (as_Doc tm) ! j))), (''url'', JInt (int k))]
                      @ (if i then [(''doc'', JStr (trim_docstring H
                                                     (docstring (preorder (as_Doc tm) ! j))))]
                         else [])
                      @ (if is_Function (preorder (as_Doc tm) ! j) then [(''func'', JInt 1)]
                         else [])))"
    unfolding index_js_def by (intro exI[of _ urls] exI[of _ idx]) simp
qed

lemma f_write_plain:
  "files w f = Some (File c) \<Longrightarrow>
   f_write plain_host f d w = (None, w\<lparr>files := (files w)(f \<mapsto> File (c @ d))\<rparr>)"
  by (simp add: f_write_def plain_host_def)

lemma write_index_js_plain:
  "files w f = Some (File c) \<Longrightarrow> fst (write_index_js plain_host f urls idx w) = None"
  by (simp add: write_index_js_def f_write_plain)

lemma write_search_html_plain:
  "files w f = Some (File c) \<Longrightarrow> fst (write_search_html plain_host f tm w) = None"
proof -
  assume f: "files w f = Some (File c)"
  have r: "render_search plain_host tm = Inr ''<search>''" by (simp add: plain_host_def)
  show ?thesis by (simp add: write_search_html_def r f_write_plain[OF f])
qed

lemma open_write_file_plain:
  assumes "open_w (files w) f = Inr fs" and "fst (wbody (w\<lparr>files := fs\<rparr>)) = None"
  shows "open_write_file f wbody w = (None, print f (snd (wbody (w\<lparr>files := fs\<rparr>))))"
  using assms by (cases "wbody (w\<lparr>files := fs\<rparr>)") (simp add: open_write_file_def)

lemma pkg_paths:
  "join (join ''html'' (split_on (CHR ''.'') ''pkg'')) [''index.js''] = ''html/pkg/index.js''"
  "join (join ''html'' (split_on (CHR ''.'') ''pkg'')) [''search.html''] = ''html/pkg/search.html''"
  "dirname ''html/pkg/index.js'' = ''html/pkg''"
  "dirname ''html/pkg/search.html'' = ''html/pkg''"
  by (simp_all add: startswith_def endswith_def dirname_def path_split_def rstrip_def Let_def)

lemma generate_demo:
  "fst (generate_lunr_search demo_args plain_host demo_pkg True pkg_world) = None"
proof -
  have tr: "trim_docstring plain_host = (\<lambda>s. s)" by (simp add: plain_host_def)
  have sel: "is_package demo_pkg = True" "name demo_pkg = ''pkg''" by (simp_all add: demo_pkg_def)
  have od: "output_dir demo_args = ''html''" by (simp add: demo_args_def)
  let ?u = "[''index.html'', ''sub.html'']"
  have o1: "open_w (files pkg_world) ''html/pkg/index.js''
              = Inr ((files pkg_world)(''html/pkg/index.js'' \<mapsto> File []))"
    by (simp add: open_w_def pkg_paths pkg_world_def)
  let ?w0 = "pkg_world\<lparr>files := (files pkg_world)(''html/pkg/index.js'' \<mapsto> File [])\<rparr>"
  have b1: "fst (write_index_js plain_host ''html/pkg/index.js'' ?u demo_index ?w0) = None"
    by (rule write_index_js_plain[of _ _ "[]"]) simp
  let ?w1 = "print ''html/pkg/index.js''
               (snd (write_index_js plain_host ''html/pkg/index.js'' ?u demo_index ?w0))"
  have first: "open_write_file ''html/pkg/index.js''
                 (write_index_js plain_host ''html/pkg/index.js'' ?u demo_index) pkg_world
               = (None, ?w1)"
    using open_write_file_plain[of pkg_world "''html/pkg/index.js''"
        "(files pkg_world)(''html/pkg/index.js'' \<mapsto> File [])"
        "write_index_js plain_host ''html/pkg/index.js'' ?u demo_index", OF o1 b1] .
  have dir: "files ?w1 ''html/pkg'' = Some Dir"
  proof -
    obtain r wx where wx: "write_index_js plain_host ''html/pkg/index.js'' ?u demo_index ?w0 = (r, wx)"
      by (cases "write_index_js plain_host ''html/pkg/index.js'' ?u demo_index ?w0")
    have "files wx ''html/pkg'' = files ?w0 ''html/pkg''"
      using wx
      by (auto simp: write_index_js_def split: prod.splits option.splits
            dest!: f_write_frame[where p = "''html/pkg''"])
    then show ?thesis using wx by (simp add: print_def pkg_world_def)
  qed
  have nd: "files ?w1 ''html/pkg/search.html'' \<noteq> Some Dir"
  proof -
    obtain r wx where wx: "write_index_js plain_host ''html/pkg/index.js'' ?u demo_index ?w0 = (r, wx)"
      by (cases "write_index_js plain_host ''html/pkg/index.js'' ?u demo_index ?w0")
    have "files wx ''html/pkg/search.html'' = files ?w0 ''html/pkg/search.html''"
      using wx
      by (auto simp: write_index_js_def split: prod.splits option.splits
            dest!: f_write_frame[where p = "''html/pkg/search.html''"])
    then show ?thesis using wx by (simp add: print_def pkg_world_def)
  qed
  have o2: "open_w (files ?w1) ''html/pkg/search.html''
              = Inr ((files ?w1)(''html/pkg/search.html'' \<mapsto> File []))"
    using dir nd by (simp add: open_w_def pkg_paths)
  have b2: "fst (write_search_html plain_host ''html/pkg/search.html'' demo_pkg
                   (?w1\<lparr>files := (files ?w1)(''html/pkg/search.html'' \<mapsto> File [])\<rparr>)) = None"
    by (rule write_search_html_plain[of _ _ "[]"]) simp
  from open_write_file_plain[of ?w1 "''html/pkg/search.html''"
        "(files ?w1)(''html/pkg/search.html'' \<mapsto> File [])"
        "write_search_html plain_host ''html/pkg/search.html'' demo_pkg", OF o2 b2]
  have second: "fst (open_write_file ''html/pkg/search.html''
                 (write_search_html plain_host ''html/pkg/search.html'' demo_pkg) ?w1) = None"
    by simp
  have "generate_lunr_search demo_args plain_host demo_pkg True pkg_world =
          (case open_write_file ''html/pkg/index.js''
                  (write_index_js plain_host ''html/pkg/index.js'' ?u demo_index) pkg_world of
             (Some e, w1) \<Rightarrow> (Some e, w1)
           | (None, w1) \<Rightarrow>
               open_write_file ''html/pkg/search.html''
                 (write_search_html plain_host ''html/pkg/search.html'' demo_pkg) w1)"
    unfolding generate_lunr_search_def Let_def tr build_demo sel od
    by (simp only: pkg_paths if_True sum.case prod.case)
  also have "\<dots> = open_write_file ''html/pkg/search.html''
                 (write_search_html plain_host ''html/pkg/search.html'' demo_pkg) ?w1"
    by (simp only: first prod.case option.case)
  finally show ?thesis using second by (simp only:)
qed

theorem index_js_format_witness:
  "fst (generate_lunr_search demo_args plain_host demo_pkg True pkg_world) = None
   \<and> files (snd (generate_lunr_search demo_args plain_host demo_pkg True pkg_world))
       ''html/pkg/index.js''
     = Some (File (''URLS='' @ json_dump (JArr (map JStr [''index.html'', ''sub.html'']))
                     @ '';'' @ [CHR 0x0A] @ ''INDEX='' @ json_dump (JArr demo_index)))
   \<and> json_dump (JArr (map JStr [''index.html'', ''sub.html'']))
     = ''['' @ [CHR 0x0A, CHR 0x22] @ ''index.html'' @ [CHR 0x22] @ '','' @ [CHR 0x0A, CHR 0x22]
         @ ''sub.html'' @ [CHR 0x22, CHR 0x0A] @ '']''"
proof -
  let ?R = "generate_lunr_search demo_args plain_host demo_pkg True pkg_world"
  have R: "?R = (None, snd ?R)" using generate_demo by (cases ?R) simp
  have tr: "trim_docstring plain_host = (\<lambda>s. s)" by (simp add: plain_host_def)
  from index_js_format[of demo_args plain_host demo_pkg True pkg_world "snd ?R", THEN mp, OF R]
  obtain urls idx where
    bi: "build_index (trim_docstring plain_host) True demo_pkg = Inr (urls, idx)"
    and fl: "files (snd ?R) (join (join (output_dir demo_args)
                          (if is_package demo_pkg then split_on (CHR ''.'') (name demo_pkg) else []))
                       [''index.js''])
            = Some (File (''URLS='' @ json_dump (JArr (map JStr urls)) @ '';'' @ [CHR 0x0A]
                            @ ''INDEX='' @ json_dump (JArr idx)))"
    by blast
  from bi build_demo tr have e: "urls = [''index.html'', ''sub.html'']" "idx = demo_index" by simp_all
  have p: "join (join (output_dir demo_args)
                          (if is_package demo_pkg then split_on (CHR ''.'') (name demo_pkg) else []))
                       [''index.js''] = ''html/pkg/index.js''"
    using pkg_paths(1) by (simp add: demo_pkg_def demo_args_def)
  have d: "json_dump (JArr (map JStr [''index.html'', ''sub.html'']))
     = ''['' @ [CHR 0x0A, CHR 0x22] @ ''index.html'' @ [CHR 0x22] @ '','' @ [CHR 0x0A, CHR 0x22]
         @ ''sub.html'' @ [CHR 0x22, CHR 0x0A] @ '']''"
    by (simp add: encode_str_def escape_char_def)
  from generate_demo fl[unfolded p e] d show ?thesis by (intro conjI)
qed

section \<open>The live server: properties\<close>


lemma resolve_loop_miss:
  "\<forall>i \<in> set is. exists_ext S (join_parts (take i parts)) = None \<Longrightarrow>
   resolve_loop S import_path parts is = None"
  by (induction "is") simp_all

lemma resolve_loop_hit:
  "\<forall>j \<in> set js. exists_ext S (join_parts (take j parts)) = None \<Longrightarrow>
   exists_ext S (join_parts (take i parts)) = Some realp \<Longrightarrow>
   resolve_loop S import_path parts (js @ i # rest) =
     Some (''/'' @ lstrip (CHR ''/'') realp @ ''#'' @ import_path)"
  by (induction js) simp_all

lemma range_down_split:
  assumes "1 \<le> i" and "i \<le> n"
  shows "rev [1..<Suc n] = rev [Suc i..<Suc n] @ i # rev [1..<i]"
proof -
  have a: "[1..<Suc n] = [1..<i] @ [i..<Suc n]"
    using assms upt_add_eq_append[of 1 i "Suc n - i"] by simp
  have b: "[i..<Suc n] = i # [Suc i..<Suc n]"
    using assms by (simp add: upt_conv_Cons)
  from a b have "[1..<Suc n] = [1..<i] @ [i] @ [Suc i..<Suc n]" by simp
  then show ?thesis by simp
qed

lemma resolve_ext_hit:
  assumes "1 \<le> i" and "i \<le> length (split_on (CHR ''.'') import_path)"
    and "exists_ext S (join_parts (take i (split_on (CHR ''.'') import_path))) = Some realp"
    and "\<forall>j. i < j \<and> j \<le> length (split_on (CHR ''.'') import_path) \<longrightarrow>
           exists_ext S (join_parts (take j (split_on (CHR ''.'') import_path))) = None"
  shows "resolve_ext S import_path = Some (''/'' @ lstrip (CHR ''/'') realp @ ''#'' @ import_path)"
proof -
  define parts where "parts = split_on (CHR ''.'') import_path"
  define n where "n = length parts"
  have res: "resolve_ext S import_path = resolve_loop S import_path parts (rev [1..<Suc n])"
    unfolding resolve_ext_def Let_def parts_def n_def by simp
  have bounds: "1 \<le> i" "i \<le> n" using assms(1,2) unfolding n_def parts_def by simp_all
  have here: "exists_ext S (join_parts (take i parts)) = Some realp"
    using assms(3) unfolding parts_def .
  have above: "\<forall>j. i < j \<and> j \<le> n \<longrightarrow> exists_ext S (join_parts (take j parts)) = None"
    using assms(4) unfolding n_def parts_def .
  then have "\<forall>j \<in> set (rev [Suc i..<Suc n]). exists_ext S (join_parts (take j parts)) = None"
    by auto
  from resolve_loop_hit[OF this here] range_down_split[OF bounds] res
  show ?thesis by simp
qed

lemma resolve_ext_miss:
  assumes "\<forall>j. 1 \<le> j \<and> j \<le> length (split_on (CHR ''.'') import_path) \<longrightarrow>
           exists_ext S (join_parts (take j (split_on (CHR ''.'') import_path))) = None"
  shows "resolve_ext S import_path = None"
proof -
  define parts where "parts = split_on (CHR ''.'') import_path"
  define n where "n = length parts"
  have res: "resolve_ext S import_path = resolve_loop S import_path parts (rev [1..<Suc n])"
    unfolding resolve_ext_def Let_def parts_def n_def by simp
  have "\<forall>j. 1 \<le> j \<and> j \<le> n \<longrightarrow> exists_ext S (join_parts (take j parts)) = None"
    using assms unfolding n_def parts_def .
  then have "\<forall>j \<in> set (rev [1..<Suc n]). exists_ext S (join_parts (take j parts)) = None"
    by auto
  from resolve_loop_miss[OF this] res show ?thesis by simp
qed

text \<open>What \<open>exists\<close> answers, from what is on disk.\<close>

lemma exists_ext_found:
  assumes "isfile S (join (join (output_dir (srv_args S)) [p])
                       [lstrip (CHR ''/'') (URL_PACKAGE_SUFFIX S)])
           \<or> isfile S (join (output_dir (srv_args S)) [p] @ URL_MODULE_SUFFIX S)"
  shows "exists_ext S p =
           Some (drop (length (output_dir (srv_args S)))
                   (if isfile S (join (join (output_dir (srv_args S)) [p])
                                   [lstrip (CHR ''/'') (URL_PACKAGE_SUFFIX S)])
                    then join (join (output_dir (srv_args S)) [p])
                           [lstrip (CHR ''/'') (URL_PACKAGE_SUFFIX S)]
                    else join (output_dir (srv_args S)) [p] @ URL_MODULE_SUFFIX S))"
proof (cases "isfile S (join (join (output_dir (srv_args S)) [p])
                       [lstrip (CHR ''/'') (URL_PACKAGE_SUFFIX S)])")
  case True
  then show ?thesis unfolding exists_ext_def Let_def by (simp only: if_True)
next
  case False
  with assms have "isfile S (join (output_dir (srv_args S)) [p] @ URL_MODULE_SUFFIX S)" by blast
  with False show ?thesis unfolding exists_ext_def Let_def by (simp only: if_True if_False)
qed

lemma exists_ext_none:
  assumes "\<not> isfile S (join (join (output_dir (srv_args S)) [p])
                       [lstrip (CHR ''/'') (URL_PACKAGE_SUFFIX S)])"
    and "\<not> isfile S (join (output_dir (srv_args S)) [p] @ URL_MODULE_SUFFIX S)"
  shows "exists_ext S p = None"
  using assms unfolding exists_ext_def Let_def by (simp only: if_False)

lemma ext_not_special:
  "endswith p ''.ext'' \<Longrightarrow> p \<noteq> ''/favicon.ico'' \<and> p \<noteq> ''/''"
  by (auto simp: endswith_def)

lemma do_GET_ext:
  assumes "endswith (path r) ''.ext''"
  shows "do_GET S r =
      (case resolve_ext S (lstrip (CHR ''/'') (drop_last 4 (path r))) of
         None \<Rightarrow>
           (case pdoc_html S (hd (split_on (CHR ''.'') (lstrip (CHR ''/'') (drop_last 4 (path r))))) of
              Inl e \<Rightarrow>
                if is_Exception e then
                  Inr (send_response (log_request_on r) 404 html_headers
                         (''External identifier <code>''
                            @ lstrip (CHR ''/'') (drop_last 4 (path r)) @ ''</code> not found.''))
                else Inl e
            | Inr out \<Rightarrow> Inr (send_response (log_request_on r) 200 html_headers out))
       | Some resolved \<Rightarrow> Inr (redirect r resolved))"
  using assms ext_not_special[OF assms] unfolding do_GET_def Let_def by simp

text \<open>The example servers and requests, evaluated.\<close>

lemma demo_server_sel:
  "output_dir (srv_args demo_server) = ''html''"
  "URL_PACKAGE_SUFFIX demo_server = ''/index.html''"
  "URL_MODULE_SUFFIX demo_server = ''.html''"
  "isfile demo_server = (\<lambda>f. f = ''html/pkg/sub.html'')"
  "pdoc_html demo_server = (\<lambda>n. Inl (ImportError n))"
  by (simp_all add: demo_server_def)

lemma index_server_sel:
  "output_dir (srv_args index_server) = ''html''"
  "URL_PACKAGE_SUFFIX index_server = ''/index.html''"
  "URL_MODULE_SUFFIX index_server = ''.html''"
  "isfile index_server = (\<lambda>f. f = ''html/pkg/index.html'')"
  by (simp_all add: index_server_def demo_server_def)

lemma get_request_sel:
  "path (get_request p) = p" "log_request_on (get_request p) = True"
  by (simp_all add: get_request_def)

lemma demo_ext_path:
  "endswith ''/pkg.sub.Name.ext'' ''.ext''"
  "lstrip (CHR ''/'') (drop_last 4 ''/pkg.sub.Name.ext'') = ''pkg.sub.Name''"
  "split_on (CHR ''.'') ''pkg.sub.Name'' = [''pkg'', ''sub'', ''Name'']"
  "endswith ''/other.ext'' ''.ext''"
  "lstrip (CHR ''/'') (drop_last 4 ''/other.ext'') = ''other''"
  "split_on (CHR ''.'') ''other'' = [''other'']"
  by code_simp+

lemma demo_prefix_files:
  "join (join ''html'' [join_parts (take 1 [''pkg'', ''sub'', ''Name''])]) [lstrip (CHR ''/'') ''/index.html''] = ''html/pkg/index.html''"
  "join (join ''html'' [join_parts (take 2 [''pkg'', ''sub'', ''Name''])]) [lstrip (CHR ''/'') ''/index.html''] = ''html/pkg/sub/index.html''"
  "join (join ''html'' [join_parts (take 3 [''pkg'', ''sub'', ''Name''])]) [lstrip (CHR ''/'') ''/index.html''] = ''html/pkg/sub/Name/index.html''"
  "join ''html'' [join_parts (take 1 [''pkg'', ''sub'', ''Name''])] @ ''.html'' = ''html/pkg.html''"
  "join ''html'' [join_parts (take 2 [''pkg'', ''sub'', ''Name''])] @ ''.html'' = ''html/pkg/sub.html''"
  "join ''html'' [join_parts (take 3 [''pkg'', ''sub'', ''Name''])] @ ''.html'' = ''html/pkg/sub/Name.html''"
  "join (join ''html'' [join_parts (take 1 [''other''])]) [lstrip (CHR ''/'') ''/index.html''] = ''html/other/index.html''"
  "join ''html'' [join_parts (take 1 [''other''])] @ ''.html'' = ''html/other.html''"
  "lstrip (CHR ''/'') (drop 4 ''html/pkg/sub.html'') = ''pkg/sub.html''"
  "lstrip (CHR ''/'') (drop 4 ''html/pkg/index.html'') = ''pkg/index.html''"
  by code_simp+

lemma demo_lengths:
  "length [''pkg'', ''sub'', ''Name''] = 3" "length [''other''] = 1" "length ''html'' = 4"
  by simp_all

lemma demo_file_neq:
  "(''html/pkg/index.html'' = ''html/pkg/sub.html'') = False"
  "(''html/pkg/sub/index.html'' = ''html/pkg/sub.html'') = False"
  "(''html/pkg/sub/Name/index.html'' = ''html/pkg/sub.html'') = False"
  "(''html/pkg.html'' = ''html/pkg/sub.html'') = False"
  "(''html/pkg/sub/Name.html'' = ''html/pkg/sub.html'') = False"
  "(''html/other/index.html'' = ''html/pkg/sub.html'') = False"
  "(''html/other.html'' = ''html/pkg/sub.html'') = False"
  "(''html/pkg/sub/index.html'' = ''html/pkg/index.html'') = False"
  "(''html/pkg/sub/Name/index.html'' = ''html/pkg/index.html'') = False"
  "(''html/pkg/sub.html'' = ''html/pkg/index.html'') = False"
  "(''html/pkg/sub/Name.html'' = ''html/pkg/index.html'') = False"
  by simp_all

text \<open>
  C8 (external-link resolution).  A request whose path ends in \<open>.ext\<close> is resolved
  against the files on disk.  For the \<open>i\<close>-th dotted prefix of the import path, \<open>pkg i\<close> is
  its package-index file and \<open>modf i\<close> its module file under the output directory.  If
  one of the two is a file for the prefix of length \<open>i\<close> and neither is for any longer
  prefix, \<open>resolve_ext\<close> returns that file (the package index when both exist), with
  the output directory cut off, one leading slash and the full import path as fragment, and
  \<open>do_GET\<close> answers 302 with this location.  If neither file exists for any prefix,
  \<open>resolve_ext\<close> returns nothing and \<open>do_GET\<close> generates the documentation of the
  outermost component: its page is sent with 200, and a failure of the generation with an
  \<open>Exception\<close> is answered by 404.
\<close>

theorem resolve_ext_longest_prefix:
  "endswith (path r) ''.ext'' \<longrightarrow>
   (let import_path = lstrip (CHR ''/'') (drop_last 4 (path r));
        parts = split_on (CHR ''.'') import_path;
        out = output_dir (srv_args S);
        pkg = (\<lambda>i. join (join out [join_parts (take i parts)])
                       [lstrip (CHR ''/'') (URL_PACKAGE_SUFFIX S)]);
        modf = (\<lambda>i. join out [join_parts (take i parts)] @ URL_MODULE_SUFFIX S)
    in
      (\<forall>i. 1 \<le> i \<and> i \<le> length parts
            \<and> (isfile S (pkg i) \<or> isfile S (modf i))
            \<and> (\<forall>j. i < j \<and> j \<le> length parts \<longrightarrow> \<not> isfile S (pkg j) \<and> \<not> isfile S (modf j)) \<longrightarrow>
         resolve_ext S import_path =
           Some (''/'' @ lstrip (CHR ''/'')
                          (drop (length out) (if isfile S (pkg i) then pkg i else modf i))
                   @ ''#'' @ import_path)
         \<and> do_GET S r =
             Inr (Response 302
                    [(''Location'',
                      ''/'' @ lstrip (CHR ''/'')
                                (drop (length out) (if isfile S (pkg i) then pkg i else modf i))
                        @ ''#'' @ import_path)]
                    [] (if log_request_on r then [302] else []))) \<and>
      ((\<forall>j. 1 \<le> j \<and> j \<le> length parts \<longrightarrow> \<not> isfile S (pkg j) \<and> \<not> isfile S (modf j)) \<longrightarrow>
         resolve_ext S import_path = None
         \<and> (\<forall>e. pdoc_html S (hd parts) = Inl e \<and> is_Exception e \<longrightarrow>
               do_GET S r =
                 Inr (Response 404 html_headers
                        (''External identifier <code>'' @ import_path @ ''</code> not found.'')
                        (if log_request_on r then [404] else [])))
         \<and> (\<forall>page. pdoc_html S (hd parts) = Inr page \<longrightarrow>
               do_GET S r =
                 Inr (Response 200 html_headers page (if log_request_on r then [200] else [])))))"
proof (intro impI)
  assume ext: "endswith (path r) ''.ext''"
  define import_path where "import_path = lstrip (CHR ''/'') (drop_last 4 (path r))"
  define parts where "parts = split_on (CHR ''.'') import_path"
  define out where "out = output_dir (srv_args S)"
  define pkg where "pkg = (\<lambda>i. join (join out [join_parts (take i parts)])
                       [lstrip (CHR ''/'') (URL_PACKAGE_SUFFIX S)])"
  define modf where "modf = (\<lambda>i. join out [join_parts (take i parts)] @ URL_MODULE_SUFFIX S)"
  note get = do_GET_ext[OF ext, of S, folded import_path_def, folded parts_def]
  have found: "exists_ext S (join_parts (take i parts)) =
                 Some (drop (length out) (if isfile S (pkg i) then pkg i else modf i))"
    if "isfile S (pkg i) \<or> isfile S (modf i)" for i
    using exists_ext_found[of S "join_parts (take i parts)"] that
    unfolding pkg_def modf_def out_def by simp
  have none: "exists_ext S (join_parts (take j parts)) = None"
    if "\<not> isfile S (pkg j) \<and> \<not> isfile S (modf j)" for j
    using exists_ext_none[of S "join_parts (take j parts)"] that
    unfolding pkg_def modf_def out_def by simp
  have hit: "resolve_ext S import_path =
           Some (''/'' @ lstrip (CHR ''/'')
                          (drop (length out) (if isfile S (pkg i) then pkg i else modf i))
                   @ ''#'' @ import_path)"
    if h: "1 \<le> i \<and> i \<le> length parts
            \<and> (isfile S (pkg i) \<or> isfile S (modf i))
            \<and> (\<forall>j. i < j \<and> j \<le> length parts \<longrightarrow> \<not> isfile S (pkg j) \<and> \<not> isfile S (modf j))"
    for i
  proof -
    from h have a: "1 \<le> i" "i \<le> length (split_on (CHR ''.'') import_path)"
      unfolding parts_def by simp_all
    from h found[of i]
    have b: "exists_ext S (join_parts (take i (split_on (CHR ''.'') import_path))) =
               Some (drop (length out) (if isfile S (pkg i) then pkg i else modf i))"
      unfolding parts_def by blast
    from h none
    have c: "\<forall>j. i < j \<and> j \<le> length (split_on (CHR ''.'') import_path) \<longrightarrow>
           exists_ext S (join_parts (take j (split_on (CHR ''.'') import_path))) = None"
      unfolding parts_def by blast
    from resolve_ext_hit[OF a b c] show ?thesis .
  qed
  have miss: "resolve_ext S import_path = None"
    if h: "\<forall>j. 1 \<le> j \<and> j \<le> length parts \<longrightarrow> \<not> isfile S (pkg j) \<and> \<not> isfile S (modf j)"
  proof -
    from h none
    have "\<forall>j. 1 \<le> j \<and> j \<le> length (split_on (CHR ''.'') import_path) \<longrightarrow>
           exists_ext S (join_parts (take j (split_on (CHR ''.'') import_path))) = None"
      unfolding parts_def by blast
    from resolve_ext_miss[OF this] show ?thesis .
  qed
  have goal:
    "(\<forall>i. 1 \<le> i \<and> i \<le> length parts
            \<and> (isfile S (pkg i) \<or> isfile S (modf i))
            \<and> (\<forall>j. i < j \<and> j \<le> length parts \<longrightarrow> \<not> isfile S (pkg j) \<and> \<not> isfile S (modf j)) \<longrightarrow>
         resolve_ext S import_path =
           Some (''/'' @ lstrip (CHR ''/'')
                          (drop (length out) (if isfile S (pkg i) then pkg i else modf i))
                   @ ''#'' @ import_path)
         \<and> do_GET S r =
             Inr (Response 302
                    [(''Location'',
                      ''/'' @ lstrip (CHR ''/'')
                                (drop (length out) (if isfile S (pkg i) then pkg i else modf i))
                        @ ''#'' @ import_path)]
                    [] (if log_request_on r then [302] else []))) \<and>
      ((\<forall>j. 1 \<le> j \<and> j \<le> length parts \<longrightarrow> \<not> isfile S (pkg j) \<and> \<not> isfile S (modf j)) \<longrightarrow>
         resolve_ext S import_path = None
         \<and> (\<forall>e. pdoc_html S (hd parts) = Inl e \<and> is_Exception e \<longrightarrow>
               do_GET S r =
                 Inr (Response 404 html_headers
                        (''External identifier <code>'' @ import_path @ ''</code> not found.'')
                        (if log_request_on r then [404] else [])))
         \<and> (\<forall>page. pdoc_html S (hd parts) = Inr page \<longrightarrow>
               do_GET S r =
                 Inr (Response 200 html_headers page (if log_request_on r then [200] else []))))"
  proof (intro conjI allI impI)
    fix i
    assume h: "1 \<le> i \<and> i \<le> length parts
            \<and> (isfile S (pkg i) \<or> isfile S (modf i))
            \<and> (\<forall>j. i < j \<and> j \<le> length parts \<longrightarrow> \<not> isfile S (pkg j) \<and> \<not> isfile S (modf j))"
    from hit[OF h] show r1: "resolve_ext S import_path =
           Some (''/'' @ lstrip (CHR ''/'')
                          (drop (length out) (if isfile S (pkg i) then pkg i else modf i))
                   @ ''#'' @ import_path)" .
    show "do_GET S r =
             Inr (Response 302
                    [(''Location'',
                      ''/'' @ lstrip (CHR ''/'')
                                (drop (length out) (if isfile S (pkg i) then pkg i else modf i))
                        @ ''#'' @ import_path)]
                    [] (if log_request_on r then [302] else []))"
      unfolding get r1 by (simp add: redirect_def send_response_def)
  next
    assume h: "\<forall>j. 1 \<le> j \<and> j \<le> length parts \<longrightarrow> \<not> isfile S (pkg j) \<and> \<not> isfile S (modf j)"
    from miss[OF h] show "resolve_ext S import_path = None" .
  next
    fix e
    assume h: "\<forall>j. 1 \<le> j \<and> j \<le> length parts \<longrightarrow> \<not> isfile S (pkg j) \<and> \<not> isfile S (modf j)"
      and e: "pdoc_html S (hd parts) = Inl e \<and> is_Exception e"
    show "do_GET S r =
                 Inr (Response 404 html_headers
                        (''External identifier <code>'' @ import_path @ ''</code> not found.'')
                        (if log_request_on r then [404] else []))"
      unfolding get miss[OF h] using e by (simp add: send_response_def)
  next
    fix page
    assume h: "\<forall>j. 1 \<le> j \<and> j \<le> length parts \<longrightarrow> \<not> isfile S (pkg j) \<and> \<not> isfile S (modf j)"
      and e: "pdoc_html S (hd parts) = Inr page"
    show "do_GET S r =
                 Inr (Response 200 html_headers page (if log_request_on r then [200] else []))"
      unfolding get miss[OF h] using e by (simp add: send_response_def)
  qed
  then show "let import_path = lstrip (CHR ''/'') (drop_last 4 (path r));
        parts = split_on (CHR ''.'') import_path;
        out = output_dir (srv_args S);
        pkg = (\<lambda>i. join (join out [join_parts (take i parts)])
                       [lstrip (CHR ''/'') (URL_PACKAGE_SUFFIX S)]);
        modf = (\<lambda>i. join out [join_parts (take i parts)] @ URL_MODULE_SUFFIX S)
    in
      (\<forall>i. 1 \<le> i \<and> i \<le> length parts
            \<and> (isfile S (pkg i) \<or> isfile S (modf i))
            \<and> (\<forall>j. i < j \<and> j \<le> length parts \<longrightarrow> \<not> isfile S (pkg j) \<and> \<not> isfile S (modf j)) \<longrightarrow>
         resolve_ext S import_path =
           Some (''/'' @ lstrip (CHR ''/'')
                          (drop (length out) (if isfile S (pkg i) then pkg i else modf i))
                   @ ''#'' @ import_path)
         \<and> do_GET S r =
             Inr (Response 302
                    [(''Location'',
                      ''/'' @ lstrip (CHR ''/'')
                                (drop (length out) (if isfile S (pkg i) then pkg i else modf i))
                        @ ''#'' @ import_path)]
                    [] (if log_request_on r then [302] else []))) \<and>
      ((\<forall>j. 1 \<le> j \<and> j \<le> length parts \<longrightarrow> \<not> isfile S (pkg j) \<and> \<not> isfile S (modf j)) \<longrightarrow>
         resolve_ext S import_path = None
         \<and> (\<forall>e. pdoc_html S (hd parts) = Inl e \<and> is_Exception e \<longrightarrow>
               do_GET S r =
                 Inr (Response 404 html_headers
                        (''External identifier <code>'' @ import_path @ ''</code> not found.'')
                        (if log_request_on r then [404] else [])))
         \<and> (\<forall>page. pdoc_html S (hd parts) = Inr page \<longrightarrow>
               do_GET S r =
                 Inr (Response 200 html_headers page (if log_request_on r then [200] else []))))"
    unfolding Let_def import_path_def parts_def out_def pkg_def modf_def .
qed

theorem resolve_ext_longest_prefix_witness:
  "do_GET demo_server (get_request ''/pkg.sub.Name.ext'') =
     Inr (Response 302 [(''Location'', ''/pkg/sub.html#pkg.sub.Name'')] [] [302])
   \<and> do_GET index_server (get_request ''/pkg.sub.Name.ext'') =
     Inr (Response 302 [(''Location'', ''/pkg/index.html#pkg.sub.Name'')] [] [302])
   \<and> resolve_ext demo_server ''other'' = None
   \<and> do_GET demo_server (get_request ''/other.ext'') =
     Inr (Response 404 html_headers ''External identifier <code>other</code> not found.'' [404])"
proof -
  note T1 = resolve_ext_longest_prefix[of "get_request ''/pkg.sub.Name.ext''" demo_server,
      THEN mp, unfolded get_request_sel, OF demo_ext_path(1),
      unfolded Let_def demo_ext_path(2,3) demo_server_sel demo_lengths,
      THEN conjunct1, THEN spec, of 2, THEN mp]
  note T2 = resolve_ext_longest_prefix[of "get_request ''/pkg.sub.Name.ext''" index_server,
      THEN mp, unfolded get_request_sel, OF demo_ext_path(1),
      unfolded Let_def demo_ext_path(2,3) index_server_sel demo_lengths,
      THEN conjunct1, THEN spec, of 1, THEN mp]
  note T3 = resolve_ext_longest_prefix[of "get_request ''/other.ext''" demo_server,
      THEN mp, unfolded get_request_sel, OF demo_ext_path(4),
      unfolded Let_def demo_ext_path(5,6) demo_server_sel demo_lengths,
      THEN conjunct2, THEN mp]
  have a: "do_GET demo_server (get_request ''/pkg.sub.Name.ext'') =
     Inr (Response 302 [(''Location'', ''/pkg/sub.html#pkg.sub.Name'')] [] [302])"
  proof -
    have later: "join (join ''html'' [join_parts (take j [''pkg'', ''sub'', ''Name''])])
                   [lstrip (CHR ''/'') ''/index.html''] \<noteq> ''html/pkg/sub.html''
               \<and> join ''html'' [join_parts (take j [''pkg'', ''sub'', ''Name''])] @ ''.html''
                   \<noteq> ''html/pkg/sub.html''"
      if "2 < j \<and> j \<le> 3" for j
    proof -
      from that have j: "j = 3" by simp
      show ?thesis unfolding j by (simp only: demo_prefix_files demo_file_neq) simp
    qed
    have here: "join (join ''html'' [join_parts (take 2 [''pkg'', ''sub'', ''Name''])])
                   [lstrip (CHR ''/'') ''/index.html''] = ''html/pkg/sub.html''
               \<or> join ''html'' [join_parts (take 2 [''pkg'', ''sub'', ''Name''])] @ ''.html''
                   = ''html/pkg/sub.html''"
      by (simp only: demo_prefix_files) simp
    have "1 \<le> (2::nat)" "(2::nat) \<le> 3" by simp_all
    with here later have "do_GET demo_server (get_request ''/pkg.sub.Name.ext'') =
       Inr (Response 302
              [(''Location'',
                ''/'' @ lstrip (CHR ''/'')
                          (drop 4 (if join (join ''html'' [join_parts (take 2 [''pkg'', ''sub'', ''Name''])])
                                        [lstrip (CHR ''/'') ''/index.html''] = ''html/pkg/sub.html''
                                   then join (join ''html'' [join_parts (take 2 [''pkg'', ''sub'', ''Name''])])
                                          [lstrip (CHR ''/'') ''/index.html'']
                                   else join ''html'' [join_parts (take 2 [''pkg'', ''sub'', ''Name''])] @ ''.html''))
                  @ ''#'' @ ''pkg.sub.Name'')]
              [] (if True then [302] else []))"
      by (intro T1[THEN conjunct2] conjI allI impI) blast+
    also have "\<dots> = Inr (Response 302 [(''Location'', ''/pkg/sub.html#pkg.sub.Name'')] [] [302])"
      by (simp only: demo_prefix_files demo_file_neq if_False if_True) simp
    finally show ?thesis .
  qed
  have b: "do_GET index_server (get_request ''/pkg.sub.Name.ext'') =
     Inr (Response 302 [(''Location'', ''/pkg/index.html#pkg.sub.Name'')] [] [302])"
  proof -
    have later: "join (join ''html'' [join_parts (take j [''pkg'', ''sub'', ''Name''])])
                   [lstrip (CHR ''/'') ''/index.html''] \<noteq> ''html/pkg/index.html''
               \<and> join ''html'' [join_parts (take j [''pkg'', ''sub'', ''Name''])] @ ''.html''
                   \<noteq> ''html/pkg/index.html''"
      if "1 < j \<and> j \<le> 3" for j
    proof -
      from that have "j = 2 \<or> j = 3" by arith
      then show ?thesis
      proof
        assume j: "j = 2"
        show ?thesis unfolding j by (simp only: demo_prefix_files demo_file_neq) simp
      next
        assume j: "j = 3"
        show ?thesis unfolding j by (simp only: demo_prefix_files demo_file_neq) simp
      qed
    qed
    have here: "join (join ''html'' [join_parts (take 1 [''pkg'', ''sub'', ''Name''])])
                   [lstrip (CHR ''/'') ''/index.html''] = ''html/pkg/index.html''
               \<or> join ''html'' [join_parts (take 1 [''pkg'', ''sub'', ''Name''])] @ ''.html''
                   = ''html/pkg/index.html''"
      by (simp only: demo_prefix_files) simp
    have "1 \<le> (1::nat)" "(1::nat) \<le> 3" by simp_all
    with here later have "do_GET index_server (get_request ''/pkg.sub.Name.ext'') =
       Inr (Response 302
              [(''Location'',
                ''/'' @ lstrip (CHR ''/'')
                          (drop 4 (if join (join ''html'' [join_parts (take 1 [''pkg'', ''sub'', ''Name''])])
                                        [lstrip (CHR ''/'') ''/index.html''] = ''html/pkg/index.html''
                                   then join (join ''html'' [join_parts (take 1 [''pkg'', ''sub'', ''Name''])])
                                          [lstrip (CHR ''/'') ''/index.html'']
                                   else join ''html'' [join_parts (take 1 [''pkg'', ''sub'', ''Name''])] @ ''.html''))
                  @ ''#'' @ ''pkg.sub.Name'')]
              [] (if True then [302] else []))"
      by (intro T2[THEN conjunct2] conjI allI impI) blast+
    also have "\<dots> = Inr (Response 302 [(''Location'', ''/pkg/index.html#pkg.sub.Name'')] [] [302])"
      by (simp only: demo_prefix_files demo_file_neq if_False if_True refl) simp
    finally show ?thesis .
  qed
  have none: "join (join ''html'' [join_parts (take j [''other''])])
                   [lstrip (CHR ''/'') ''/index.html''] \<noteq> ''html/pkg/sub.html''
               \<and> join ''html'' [join_parts (take j [''other''])] @ ''.html''
                   \<noteq> ''html/pkg/sub.html''"
    if "1 \<le> j \<and> j \<le> 1" for j
  proof -
    from that have j: "j = 1" by simp
    show ?thesis unfolding j by (simp only: demo_prefix_files demo_file_neq) simp
  qed
  have "\<forall>j. 1 \<le> j \<and> j \<le> 1 \<longrightarrow>
          join (join ''html'' [join_parts (take j [''other''])])
            [lstrip (CHR ''/'') ''/index.html''] \<noteq> ''html/pkg/sub.html''
          \<and> join ''html'' [join_parts (take j [''other''])] @ ''.html'' \<noteq> ''html/pkg/sub.html''"
    using none by blast
  note T3' = T3[OF this]
  from T3' have c: "resolve_ext demo_server ''other'' = None" by (rule conjunct1)
  from T3'[THEN conjunct2, THEN conjunct1, THEN spec, of "ImportError (hd [''other''])"]
  have d: "do_GET demo_server (get_request ''/other.ext'') =
     Inr (Response 404 html_headers ''External identifier <code>other</code> not found.'' [404])"
    by simp
  from a b c d show ?thesis by (intro conjI)
qed


text \<open>
  C9 (HEAD on a path other than the root). When the path resolves to a module with a
  backing file and the request carries \<open>If-None-Match\<close>: a validator equal to the
  file's modification time gives 304 and nothing is logged; a different one gives 205;
  when the import fails with an \<open>ImportError\<close> the status is 404.
\<close>

theorem do_HEAD_conditional:
  "path r \<noteq> ''/'' \<longrightarrow>
     (\<forall>m f etag v.
        reimport S (import_path_from_req_url S (path r)) = Inr m \<and> file_attr m = Some f
          \<and> stat_mtime S f = Inr etag \<and> headers r ''If-None-Match'' = Some v \<longrightarrow>
        (v = etag \<longrightarrow> do_HEAD S r = Inr (Response 304 html_headers [] [])) \<and>
        (v \<noteq> etag \<longrightarrow>
           do_HEAD S r =
             Inr (Response 205 html_headers [] (if log_request_on r then [205] else [])))) \<and>
     (\<forall>e. reimport S (import_path_from_req_url S (path r)) = Inl e \<and> is_ImportError e \<longrightarrow>
        do_HEAD S r =
          Inr (Response 404 html_headers [] (if log_request_on r then [404] else [])))"
  by (auto simp: do_HEAD_def check_modified_def send_response_def html_headers_def Let_def)

theorem do_HEAD_conditional_witness:
  "do_HEAD demo_server (head_request (Some ''1700000000.5'')) = Inr (Response 304 html_headers [] [])
   \<and> do_HEAD demo_server (head_request (Some ''1600000000.0'')) = Inr (Response 205 html_headers [] [205])
   \<and> do_HEAD demo_server (get_request ''/nothing/'') = Inr (Response 404 html_headers [] [404])"
proof -
  have ip: "import_path_from_req_url demo_server ''/pkg/sub.html'' = ''pkg.sub''"
    by (simp add: import_path_from_req_url_def demo_server_def lstrip_def endswith_def drop_last_def)
  have ip2: "import_path_from_req_url demo_server ''/nothing/'' = ''nothing''"
    by (simp add: import_path_from_req_url_def demo_server_def lstrip_def endswith_def drop_last_def)
  have a: "do_HEAD demo_server (head_request (Some ''1700000000.5'')) = Inr (Response 304 html_headers [] [])"
    using do_HEAD_conditional[of "head_request (Some ''1700000000.5'')" demo_server] ip
    by (simp add: head_request_def demo_server_def)
  have b: "do_HEAD demo_server (head_request (Some ''1600000000.0'')) = Inr (Response 205 html_headers [] [205])"
    using do_HEAD_conditional[of "head_request (Some ''1600000000.0'')" demo_server] ip
    by (simp add: head_request_def demo_server_def)
  have c: "do_HEAD demo_server (get_request ''/nothing/'') = Inr (Response 404 html_headers [] [404])"
    using do_HEAD_conditional[of "get_request ''/nothing/''" demo_server] ip2
    by (simp add: get_request_def demo_server_def)
  from a b c show ?thesis by simp
qed

text \<open>
  C10 (HEAD without \<open>If-None-Match\<close>). The missing header defaults to the validator
  just computed, so the comparison succeeds: the status is 304 and nothing is logged.
\<close>

theorem do_HEAD_without_validator:
  "path r \<noteq> ''/'' \<and> reimport S (import_path_from_req_url S (path r)) = Inr m
     \<and> file_attr m = Some f \<and> stat_mtime S f = Inr etag \<and> headers r ''If-None-Match'' = None \<longrightarrow>
   do_HEAD S r = Inr (Response 304 html_headers [] [])"
  by (auto simp: do_HEAD_def check_modified_def send_response_def html_headers_def Let_def)

theorem do_HEAD_without_validator_witness:
  "do_HEAD demo_server (head_request None) = Inr (Response 304 html_headers [] [])"
proof -
  have ip: "import_path_from_req_url demo_server ''/pkg/sub.html'' = ''pkg.sub''"
    by (simp add: import_path_from_req_url_def demo_server_def lstrip_def endswith_def drop_last_def)
  show ?thesis
    using do_HEAD_without_validator[of "head_request None" demo_server
        "\<lparr>file_attr = Some ''/src/pkg/sub.py''\<rparr>" "''/src/pkg/sub.py''" "''1700000000.5''"] ip
    by (simp add: head_request_def demo_server_def)
qed

end
